theory Spec2Isabelle
  imports Complex_Main "HOL-Library.Sublist"
begin

section \<open>Magnetic Shuttle: the background service worker\<close>

text \<open>
  The service worker reinterprets tab drags as pin and unpin commands. The repository
  holds two copies of the worker, one with comments and logging and one without; their
  control flow is the same. The embedding below follows the copy without logging, line
  by line.
\<close>

subsection \<open>Tabs and the browser\<close>

text \<open>
  A tab as the browser hands it to the worker. Only the fields the worker reads are
  kept (\<open>title\<close> is read by logging only); the source's \<^verbatim>\<open>id\<close> is \<open>tab_id\<close> here.
  Indices and counts are JavaScript numbers that hold integers, so they are \<open>int\<close>.
\<close>

record tab =
  tab_id :: nat
  windowId :: nat
  index :: int
  pinned :: bool

text \<open>The two badge glyphs of the source (a pushpin and an outbox tray).\<close>

datatype glyph = Pushpin | OutboxTray

text \<open>
  Every call the worker issues to the browser, in the order it issues them. The trace
  of calls is what an observer of the worker sees.
\<close>

datatype call =
    TabsGet nat
  | TabsQueryPinned nat
  | TabsQueryActive
  | TabsUpdate nat bool
  | TabsMove nat int
  | SetBadgeText glyph
  | SetBadgeBackgroundColor string
  | SetTimeoutClearBadge nat
  | Sleep rat

text \<open>
  The browser is not part of the repository. It is a parameter: a record of response
  functions over a browser state \<open>'h\<close> of any type. A call either throws an error
  (\<open>Inl\<close> of the error's message) or returns (\<open>Inr\<close>), and leaves a new browser
  state; whatever else happens in the browser while the worker awaits the answer is part
  of that new state. \<open>elapse\<close> is what the browser does while the worker waits on a
  timer.
\<close>

record 'h chrome =
  tabs_get :: "nat \<Rightarrow> 'h \<Rightarrow> (string + tab) \<times> 'h"
  tabs_query_pinned :: "nat \<Rightarrow> 'h \<Rightarrow> (string + tab list) \<times> 'h"
  tabs_query_active :: "'h \<Rightarrow> (string + tab list) \<times> 'h"
  tabs_update :: "nat \<Rightarrow> bool \<Rightarrow> 'h \<Rightarrow> (string + unit) \<times> 'h"
  tabs_move :: "nat \<Rightarrow> int \<Rightarrow> 'h \<Rightarrow> (string + unit) \<times> 'h"
  setBadgeText :: "glyph \<Rightarrow> 'h \<Rightarrow> (string + unit) \<times> 'h"
  setBadgeBackgroundColor :: "string \<Rightarrow> 'h \<Rightarrow> (string + unit) \<times> 'h"
  elapse :: "rat \<Rightarrow> 'h \<Rightarrow> 'h"

text \<open>
  The world of a run: the browser state and the trace of calls issued so far. An
  asynchronous computation takes a world and gives a thrown message or a value,
  with the world it leaves.
\<close>

type_synonym 'h world = "'h \<times> call list"

type_synonym ('h, 'a) io = "'h world \<Rightarrow> (string + 'a) \<times> 'h world"

definition return :: "'a \<Rightarrow> ('h, 'a) io" where
  "return x w = (Inr x, w)"

text \<open>\<open>await m k\<close>: run \<open>m\<close>; a throw leaves the block, a value goes on to \<open>k\<close>.\<close>

definition await :: "('h, 'a) io \<Rightarrow> ('a \<Rightarrow> ('h, 'b) io) \<Rightarrow> ('h, 'b) io" where
  "await m k w = (case m w of (Inl e, w') \<Rightarrow> (Inl e, w') | (Inr x, w') \<Rightarrow> k x w')"

text \<open>\<open>issue c f\<close>: one browser call, recorded in the trace.\<close>

definition issue :: "call \<Rightarrow> ('h \<Rightarrow> (string + 'a) \<times> 'h) \<Rightarrow> ('h, 'a) io" where
  "issue c f w = (case f (fst w) of (r, h') \<Rightarrow> (r, (h', snd w @ [c])))"

definition chrome_tabs_get :: "'h chrome \<Rightarrow> nat \<Rightarrow> ('h, tab) io" where
  "chrome_tabs_get H tabId = issue (TabsGet tabId) (tabs_get H tabId)"

definition chrome_tabs_update :: "'h chrome \<Rightarrow> nat \<Rightarrow> bool \<Rightarrow> ('h, unit) io" where
  "chrome_tabs_update H tabId p = issue (TabsUpdate tabId p) (tabs_update H tabId p)"

definition chrome_tabs_move :: "'h chrome \<Rightarrow> nat \<Rightarrow> int \<Rightarrow> ('h, unit) io" where
  "chrome_tabs_move H tabId i = issue (TabsMove tabId i) (tabs_move H tabId i)"

definition chrome_action_setBadgeText :: "'h chrome \<Rightarrow> glyph \<Rightarrow> ('h, unit) io" where
  "chrome_action_setBadgeText H g = issue (SetBadgeText g) (setBadgeText H g)"

definition chrome_action_setBadgeBackgroundColor :: "'h chrome \<Rightarrow> string \<Rightarrow> ('h, unit) io" where
  "chrome_action_setBadgeBackgroundColor H c =
     issue (SetBadgeBackgroundColor c) (setBadgeBackgroundColor H c)"

text \<open>
  \<^verbatim>\<open>setTimeout(() => chrome.action.setBadgeText({ text: '' }), 1500)\<close>: the timer is
  set and never awaited; setting it cannot throw.
\<close>

definition setTimeout_clear_badge :: "nat \<Rightarrow> ('h, unit) io" where
  "setTimeout_clear_badge ms w = (Inr (), (fst w, snd w @ [SetTimeoutClearBadge ms]))"

text \<open>
  \<^verbatim>\<open>await new Promise(resolve => setTimeout(resolve, delay))\<close>: the worker waits and the
  browser moves on meanwhile.
\<close>

definition sleep :: "'h chrome \<Rightarrow> rat \<Rightarrow> 'h world \<Rightarrow> 'h world" where
  "sleep H d w = (elapse H d (fst w), snd w @ [Sleep d])"

subsection \<open>The worker's helpers\<close>

definition DEBOUNCE_DELAY :: nat where
  "DEBOUNCE_DELAY = 600"

definition getPinnedTabCount :: "'h chrome \<Rightarrow> nat \<Rightarrow> ('h, int) io" where
  "getPinnedTabCount H wid =
     await (issue (TabsQueryPinned wid) (tabs_query_pinned H wid))
       (\<lambda>tabs. return (int (length tabs)))"

definition flashBadge :: "'h chrome \<Rightarrow> glyph \<Rightarrow> string \<Rightarrow> ('h, unit) io" where
  "flashBadge H text color =
     await (chrome_action_setBadgeText H text) (\<lambda>_.
     await (chrome_action_setBadgeBackgroundColor H color) (\<lambda>_.
     setTimeout_clear_badge 1500))"

text \<open>\<^verbatim>\<open>String.prototype.includes\<close>: the pattern occurs somewhere in the string.\<close>

fun includes_str :: "string \<Rightarrow> string \<Rightarrow> bool" where
  "includes_str [] p = (p = [])"
| "includes_str (c # cs) p = (prefix p (c # cs) \<or> includes_str cs p)"

subsection \<open>The retry executor\<close>

text \<open>
  The body of the \<^verbatim>\<open>try\<close> block of \<^verbatim>\<open>executeWithRetry\<close>: one attempt. \<open>Inr b\<close> is
  \<^verbatim>\<open>return b\<close>; \<open>Inl msg\<close> is an error thrown by one of the awaited calls, on its way
  to the \<^verbatim>\<open>catch\<close>. \<open>action\<close> is the source's string, \<open>targetIndex\<close> is \<open>None\<close> for
  \<^verbatim>\<open>null\<close>.
\<close>

definition attempt_body :: "'h chrome \<Rightarrow> nat \<Rightarrow> string \<Rightarrow> int option \<Rightarrow> ('h, bool) io" where
  "attempt_body H tabId action targetIndex =
     await (chrome_tabs_get H tabId) (\<lambda>tab.
       if action = ''pin'' \<and> \<not> pinned tab then
         await (chrome_tabs_update H tabId True) (\<lambda>_.
         await (case targetIndex of
                  Some t \<Rightarrow> await (getPinnedTabCount H (windowId tab)) (\<lambda>n. return (min t (n - 1)))
                | None \<Rightarrow> return 0) (\<lambda>moveToIndex.
         await (chrome_tabs_move H tabId moveToIndex) (\<lambda>_.
         await (flashBadge H Pushpin ''#4CAF50'') (\<lambda>_.
         return True))))
       else if action = ''unpin'' \<and> pinned tab then
         await (getPinnedTabCount H (windowId tab)) (\<lambda>pinnedCount.
         await (chrome_tabs_update H tabId False) (\<lambda>_.
         await (case targetIndex of
                  Some t \<Rightarrow>
                    (let newPinnedCount = pinnedCount - 1;
                         moveToIndex = max newPinnedCount t
                     in chrome_tabs_move H tabId moveToIndex)
                | None \<Rightarrow> return ()) (\<lambda>_.
         await (flashBadge H OutboxTray ''#FF9800'') (\<lambda>_.
         return True))))
       else return True)"

text \<open>
  \<^verbatim>\<open>Math.min(100 * Math.pow(1.5, attempt), 2000)\<close>, in exact arithmetic. Up to attempt
  7 the value \<open>100 * 1.5 ^ attempt\<close> is a dyadic rational that a double holds exactly;
  from attempt 8 on it exceeds 2000 and the minimum is 2000.
\<close>

definition backoff_delay :: "nat \<Rightarrow> rat" where
  "backoff_delay attempt = min (100 * (3 / 2) ^ attempt) 2000"

text \<open>
  The \<^verbatim>\<open>for\<close> loop of \<^verbatim>\<open>executeWithRetry\<close>, entered with the loop counter at
  \<open>attempt\<close>. The source's defaults (\<^verbatim>\<open>targetIndex = null\<close>, \<^verbatim>\<open>maxRetries = 15\<close>) are
  what a caller that leaves them out passes: \<open>None\<close> and \<open>15\<close>.
\<close>

function executeWithRetry_from ::
  "'h chrome \<Rightarrow> nat \<Rightarrow> string \<Rightarrow> int option \<Rightarrow> nat \<Rightarrow> nat \<Rightarrow> 'h world \<Rightarrow> bool \<times> 'h world" where
  "executeWithRetry_from H tabId action targetIndex maxRetries attempt w =
     (if attempt < maxRetries then
        (case attempt_body H tabId action targetIndex w of
           (Inr b, w') \<Rightarrow> (b, w')
         | (Inl msg, w') \<Rightarrow>
             if includes_str msg ''user may be dragging''
             then executeWithRetry_from H tabId action targetIndex maxRetries (Suc attempt)
                    (sleep H (backoff_delay attempt) w')
             else (False, w'))
      else (False, w))"
  by pat_completeness auto
termination
  by (relation "measure (\<lambda>(H, tabId, action, targetIndex, maxRetries, attempt, w).
        maxRetries - attempt)") auto

definition executeWithRetry ::
  "'h chrome \<Rightarrow> nat \<Rightarrow> string \<Rightarrow> int option \<Rightarrow> nat \<Rightarrow> 'h world \<Rightarrow> bool \<times> 'h world" where
  "executeWithRetry H tabId action targetIndex maxRetries w =
     executeWithRetry_from H tabId action targetIndex maxRetries 0 w"

subsection \<open>The zone classifier and the final-position handler\<close>

datatype zone = Pin int | Unpin int | NoAction

text \<open>
  The decision \<^verbatim>\<open>processFinalPosition\<close> takes from the tab it fetched and the pinned
  count it read: the pin test with its early \<^verbatim>\<open>return\<close> first, the unpin test after it.
\<close>

definition classify :: "tab \<Rightarrow> int \<Rightarrow> zone" where
  "classify tab pinnedCount =
     (let pin_test =
            (if \<not> pinned tab then
               (let isFirstPin = (pinnedCount = 0 \<and> index tab = 0);
                    atExactBoundary = (pinnedCount > 0 \<and> index tab = pinnedCount)
                in if isFirstPin \<or> atExactBoundary then Some (Pin (index tab)) else None)
             else None)
      in case pin_test of
           Some z \<Rightarrow> z
         | None \<Rightarrow>
             (if pinned tab \<and> pinnedCount \<ge> 1 then
                (let unpinZoneStart = max 0 (pinnedCount - 2)
                 in if index tab \<ge> unpinZoneStart then Unpin (index tab) else NoAction)
              else NoAction))"

text \<open>
  \<^verbatim>\<open>processFinalPosition\<close>: every error thrown inside is swallowed by the \<^verbatim>\<open>catch\<close>;
  the executor is called with its default \<^verbatim>\<open>maxRetries = 15\<close> and its result is dropped.
\<close>

definition processFinalPosition :: "'h chrome \<Rightarrow> nat \<Rightarrow> 'h world \<Rightarrow> 'h world" where
  "processFinalPosition H tabId w =
     (case chrome_tabs_get H tabId w of
        (Inl e, w1) \<Rightarrow> w1
      | (Inr tab, w1) \<Rightarrow>
          (case getPinnedTabCount H (windowId tab) w1 of
             (Inl e, w2) \<Rightarrow> w2
           | (Inr pinnedCount, w2) \<Rightarrow>
               (case classify tab pinnedCount of
                  Pin i \<Rightarrow> snd (executeWithRetry H tabId ''pin'' (Some i) 15 w2)
                | Unpin i \<Rightarrow> snd (executeWithRetry H tabId ''unpin'' (Some i) 15 w2)
                | NoAction \<Rightarrow> w2)))"

subsection \<open>The toggle command\<close>

text \<open>
  \<^verbatim>\<open>togglePinActiveTab\<close> has no \<^verbatim>\<open>try\<close>: an error thrown by a call leaves the function
  (\<open>Inl\<close>). \<^verbatim>\<open>const [tab] = ...\<close> takes the first tab of the answer, if there is one.
\<close>

definition togglePinActiveTab :: "'h chrome \<Rightarrow> ('h, unit) io" where
  "togglePinActiveTab H =
     await (issue TabsQueryActive (tabs_query_active H)) (\<lambda>tabs.
       case tabs of
         [] \<Rightarrow> return ()
       | tab # _ \<Rightarrow>
           if pinned tab then
             await (chrome_tabs_update H (tab_id tab) False) (\<lambda>_.
             flashBadge H OutboxTray ''#FF9800'')
           else
             await (chrome_tabs_update H (tab_id tab) True) (\<lambda>_.
             flashBadge H Pushpin ''#4CAF50''))"

subsection \<open>The drag debouncer\<close>

text \<open>
  The worker's \<^verbatim>\<open>dragDebounce\<close> map lives beside the timers it has set with
  \<^verbatim>\<open>setTimeout\<close>. The runtime below holds both, a clock in milliseconds, and the
  world the worker's calls act on. A pending timer knows its handle, the time it is due
  and the tab its callback closes over.

  To tell afterwards which passes were made, the runtime also keeps a log: one entry
  for each call \<^verbatim>\<open>processFinalPosition(tabId)\<close> a timer has made, with the time of the
  call, the world it started in and the world it left.
\<close>

record timer =
  timer_id :: nat
  due :: nat
  for_tab :: nat

record 'h pass =
  pass_tab :: nat
  pass_time :: nat
  pass_before :: "'h world"
  pass_after :: "'h world"

record 'h runtime =
  clock :: nat
  nextTimerId :: nat
  pendingTimers :: "timer list"
  dragDebounce :: "nat \<rightharpoonup> nat"
  world :: "'h world"
  passes :: "'h pass list"

definition initial :: "'h world \<Rightarrow> 'h runtime" where
  "initial w = \<lparr>clock = 0, nextTimerId = 1, pendingTimers = [], dragDebounce = Map.empty,
     world = w, passes = []\<rparr>"

text \<open>\<^verbatim>\<open>setTimeout(callback, delay)\<close> for the debounce callback of \<open>tabId\<close>: a fresh handle.\<close>

definition setTimeout :: "nat \<Rightarrow> nat \<Rightarrow> 'h runtime \<Rightarrow> nat \<times> 'h runtime" where
  "setTimeout tabId delay s =
     (nextTimerId s,
      s\<lparr>nextTimerId := Suc (nextTimerId s),
        pendingTimers := pendingTimers s @
          [\<lparr>timer_id = nextTimerId s, due = clock s + delay, for_tab = tabId\<rparr>]\<rparr>)"

definition clearTimeout :: "nat \<Rightarrow> 'h runtime \<Rightarrow> 'h runtime" where
  "clearTimeout h s = s\<lparr>pendingTimers := filter (\<lambda>tm. timer_id tm \<noteq> h) (pendingTimers s)\<rparr>"

text \<open>
  The \<^verbatim>\<open>chrome.tabs.onMoved\<close> listener. \<open>moveInfo\<close> (\<^verbatim>\<open>fromIndex\<close>, \<^verbatim>\<open>toIndex\<close>) is
  received and, as in the source, not used.
\<close>

definition onMoved :: "nat \<Rightarrow> int \<times> int \<Rightarrow> 'h runtime \<Rightarrow> 'h runtime" where
  "onMoved tabId moveInfo s =
     (let s1 = (case dragDebounce s tabId of
                  Some h \<Rightarrow> clearTimeout h s
                | None \<Rightarrow> s);
          (timeoutId, s2) = setTimeout tabId DEBOUNCE_DELAY s1
      in s2\<lparr>dragDebounce := (dragDebounce s2)(tabId \<mapsto> timeoutId)\<rparr>)"

text \<open>The \<^verbatim>\<open>chrome.tabs.onRemoved\<close> listener.\<close>

definition onRemoved :: "nat \<Rightarrow> 'h runtime \<Rightarrow> 'h runtime" where
  "onRemoved tabId s =
     (case dragDebounce s tabId of
        Some h \<Rightarrow> (clearTimeout h s)\<lparr>dragDebounce := (dragDebounce s)(tabId := None)\<rparr>
      | None \<Rightarrow> s)"

text \<open>
  The callback given to \<^verbatim>\<open>setTimeout\<close> in the move listener: it deletes the entry and
  calls \<^verbatim>\<open>processFinalPosition(tabId)\<close>, which gets the tab identifier alone and
  fetches the tab from the browser. The pass is run to its end where it starts: what
  happens in the browser while the pass awaits an answer is in the browser's answers,
  and the runtime's clock is the time at which handlers start.
\<close>

definition debounce_callback :: "'h chrome \<Rightarrow> nat \<Rightarrow> 'h runtime \<Rightarrow> 'h runtime" where
  "debounce_callback H tabId s =
     (let s1 = s\<lparr>dragDebounce := (dragDebounce s)(tabId := None)\<rparr>;
          w' = processFinalPosition H tabId (world s1)
      in s1\<lparr>world := w',
            passes := passes s1 @
              [\<lparr>pass_tab = tabId, pass_time = clock s1, pass_before = world s1,
                pass_after = w'\<rparr>]\<rparr>)"

text \<open>A timer fires when the clock reaches its due time: it leaves the table and its callback runs.\<close>

definition fire :: "'h chrome \<Rightarrow> timer \<Rightarrow> 'h runtime \<Rightarrow> 'h runtime" where
  "fire H tm s =
     debounce_callback H (for_tab tm)
       (s\<lparr>clock := max (clock s) (due tm),
          pendingTimers := filter (\<lambda>x. timer_id x \<noteq> timer_id tm) (pendingTimers s)\<rparr>)"

text \<open>
  Time passes until \<open>t\<close>: the timers due by then fire, earliest first. The debounce
  callback sets and clears no debounce timer, so the timers to fire are those pending at
  the start.
\<close>

definition due_by :: "nat \<Rightarrow> 'h runtime \<Rightarrow> timer list" where
  "due_by t s = sort_key due (filter (\<lambda>tm. due tm \<le> t) (pendingTimers s))"

definition run_until :: "'h chrome \<Rightarrow> nat \<Rightarrow> 'h runtime \<Rightarrow> 'h runtime" where
  "run_until H t s =
     (let s' = fold (fire H) (due_by t s) s
      in s'\<lparr>clock := max (clock s') t\<rparr>)"

datatype event = Moved nat int int | Removed nat

text \<open>A notification arrives at time \<open>t\<close>, after the timers due by \<open>t\<close> have fired.\<close>

fun deliver :: "'h chrome \<Rightarrow> nat \<times> event \<Rightarrow> 'h runtime \<Rightarrow> 'h runtime" where
  "deliver H (t, Moved tabId fromIndex toIndex) s =
     onMoved tabId (fromIndex, toIndex) (run_until H t s)"
| "deliver H (t, Removed tabId) s = onRemoved tabId (run_until H t s)"

definition run :: "'h chrome \<Rightarrow> (nat \<times> event) list \<Rightarrow> 'h runtime \<Rightarrow> 'h runtime" where
  "run H evs s = fold (deliver H) evs s"

text \<open>What an observer sees of one tab: its pending timers and the passes made for it.\<close>

definition timers_of :: "nat \<Rightarrow> 'h runtime \<Rightarrow> timer list" where
  "timers_of T s = filter (\<lambda>tm. for_tab tm = T) (pendingTimers s)"

definition passes_of :: "nat \<Rightarrow> 'h runtime \<Rightarrow> 'h pass list" where
  "passes_of T s = filter (\<lambda>p. pass_tab p = T) (passes s)"

text \<open>
  Whether a notification is a move of the tab \<open>T\<close>, and the arrival times of the moves
  of \<open>T\<close> among a list of notifications.
\<close>

fun is_move_of :: "nat \<Rightarrow> event \<Rightarrow> bool" where
  "is_move_of T (Moved U fromIndex toIndex) = (U = T)"
| "is_move_of T (Removed U) = False"



text \<open>
  The states the runtime can be in: handles are distinct and older than the next
  handle, every pending timer is due in the future and is the one its tab's entry
  names, and every entry names a pending timer of its tab.
\<close>

definition wf :: "'h runtime \<Rightarrow> bool" where
  "wf s =
     (distinct (map timer_id (pendingTimers s))
      \<and> list_all (\<lambda>tm. timer_id tm < nextTimerId s \<and> clock s < due tm
                       \<and> dragDebounce s (for_tab tm) = Some (timer_id tm)) (pendingTimers s)
      \<and> (\<forall>T h. dragDebounce s T = Some h \<longrightarrow>
             list_ex (\<lambda>tm. timer_id tm = h \<and> for_tab tm = T) (pendingTimers s)))"

subsection \<open>Browsers to run the worker against\<close>

text \<open>
  A scripted browser answers each call with the next reply of its script, whatever the
  call; a reply of the wrong kind, or none, is an error.
\<close>

datatype reply = Throws string | GivesTab tab | GivesTabs "tab list" | GivesUnit

definition scripted :: "reply list chrome" where
  "scripted =
     \<lparr>tabs_get = (\<lambda>_ s. case s of GivesTab t # r \<Rightarrow> (Inr t, r) | Throws m # r \<Rightarrow> (Inl m, r)
                              | _ \<Rightarrow> (Inl ''script'', s)),
      tabs_query_pinned = (\<lambda>_ s. case s of GivesTabs ts # r \<Rightarrow> (Inr ts, r) | Throws m # r \<Rightarrow> (Inl m, r)
                              | _ \<Rightarrow> (Inl ''script'', s)),
      tabs_query_active = (\<lambda>s. case s of GivesTabs ts # r \<Rightarrow> (Inr ts, r) | Throws m # r \<Rightarrow> (Inl m, r)
                              | _ \<Rightarrow> (Inl ''script'', s)),
      tabs_update = (\<lambda>_ _ s. case s of GivesUnit # r \<Rightarrow> (Inr (), r) | Throws m # r \<Rightarrow> (Inl m, r)
                              | _ \<Rightarrow> (Inl ''script'', s)),
      tabs_move = (\<lambda>_ _ s. case s of GivesUnit # r \<Rightarrow> (Inr (), r) | Throws m # r \<Rightarrow> (Inl m, r)
                              | _ \<Rightarrow> (Inl ''script'', s)),
      setBadgeText = (\<lambda>_ s. case s of GivesUnit # r \<Rightarrow> (Inr (), r) | Throws m # r \<Rightarrow> (Inl m, r)
                              | _ \<Rightarrow> (Inl ''script'', s)),
      setBadgeBackgroundColor = (\<lambda>_ s. case s of GivesUnit # r \<Rightarrow> (Inr (), r) | Throws m # r \<Rightarrow> (Inl m, r)
                              | _ \<Rightarrow> (Inl ''script'', s)),
      elapse = (\<lambda>_ s. s)\<rparr>"

text \<open>The message the browser gives while a drag holds the tab strip.\<close>

definition drag_lock_message :: string where
  "drag_lock_message = ''Tabs cannot be edited right now (user may be dragging a tab).''"

text \<open>
  A browser whose user never lets go of the tab: it shows the tab \<open>t\<close>, and every
  update and move throws the drag-lock error.
\<close>

definition dragging :: "tab \<Rightarrow> unit chrome" where
  "dragging t =
     \<lparr>tabs_get = (\<lambda>_ h. (Inr t, h)),
      tabs_query_pinned = (\<lambda>_ h. (Inr [], h)),
      tabs_query_active = (\<lambda>h. (Inr [t], h)),
      tabs_update = (\<lambda>_ _ h. (Inl drag_lock_message, h)),
      tabs_move = (\<lambda>_ _ h. (Inl drag_lock_message, h)),
      setBadgeText = (\<lambda>_ h. (Inr (), h)),
      setBadgeBackgroundColor = (\<lambda>_ h. (Inr (), h)),
      elapse = (\<lambda>_ h. h)\<rparr>"

text \<open>
  A browser whose user lets go of the tab at the time \<open>deadline\<close>: its state is the
  time that has passed, which only waiting moves on; before the deadline every update
  and move throws the drag-lock error.
\<close>

definition dragging_until :: "rat \<Rightarrow> tab \<Rightarrow> rat chrome" where
  "dragging_until deadline t =
     \<lparr>tabs_get = (\<lambda>_ h. (Inr t, h)),
      tabs_query_pinned = (\<lambda>_ h. (Inr [], h)),
      tabs_query_active = (\<lambda>h. (Inr [t], h)),
      tabs_update = (\<lambda>_ _ h. if h < deadline then (Inl drag_lock_message, h) else (Inr (), h)),
      tabs_move = (\<lambda>_ _ h. if h < deadline then (Inl drag_lock_message, h) else (Inr (), h)),
      setBadgeText = (\<lambda>_ h. (Inr (), h)),
      setBadgeBackgroundColor = (\<lambda>_ h. (Inr (), h)),
      elapse = (\<lambda>d h. h + d)\<rparr>"

text \<open>An unpinned tab at the left edge of window 1.\<close>

definition tab7 :: tab where
  "tab7 = \<lparr>tab_id = 7, windowId = 1, index = 0, pinned = False\<rparr>"

subsection \<open>Reading a trace\<close>

text \<open>The delays the worker waited, in order, and the number of times it fetched a tab.\<close>

fun sleeps :: "call list \<Rightarrow> rat list" where
  "sleeps [] = []"
| "sleeps (Sleep d # cs) = d # sleeps cs"
| "sleeps (_ # cs) = sleeps cs"

definition fetches :: "nat \<Rightarrow> call list \<Rightarrow> nat" where
  "fetches tabId cs = length (filter (\<lambda>c. c = TabsGet tabId) cs)"

text \<open>
  A computation is quiet for a tab when all it adds to the trace is calls other than a
  wait and other than a fetch of that tab.
\<close>

definition quiet :: "nat \<Rightarrow> ('h, 'a) io \<Rightarrow> bool" where
  "quiet t m = (\<forall>w r w'. m w = (r, w') \<longrightarrow>
     (\<exists>ext. snd w' = snd w @ ext \<and> sleeps ext = [] \<and> fetches t ext = 0))"

text \<open>
  A log entry is a good pass of \<open>T\<close> at the time \<open>d\<close> when it is for \<open>T\<close>, made at
  \<open>d\<close>, and the world it left is what the final-position handler makes of the world
  it started in.
\<close>

definition good_pass :: "'h chrome \<Rightarrow> nat \<Rightarrow> nat \<Rightarrow> 'h pass \<Rightarrow> bool" where
  "good_pass H T d p =
     (pass_tab p = T \<and> pass_time p = d
      \<and> pass_after p = processFinalPosition H T (pass_before p))"


section \<open>Lemmas about the worker\<close>

subsection \<open>What an attempt and the retry loop add to the trace\<close>

lemmas io_defs = await_def return_def issue_def chrome_tabs_get_def chrome_tabs_update_def
  chrome_tabs_move_def chrome_action_setBadgeText_def chrome_action_setBadgeBackgroundColor_def
  setTimeout_clear_badge_def getPinnedTabCount_def flashBadge_def

lemma sleeps_append: "sleeps (xs @ ys) = sleeps xs @ sleeps ys"
  by (induction xs rule: sleeps.induct) auto

lemma fetches_append: "fetches t (xs @ ys) = fetches t xs + fetches t ys"
  by (simp add: fetches_def)

lemma quiet_return: "quiet t (return x)"
  by (simp add: quiet_def return_def fetches_def)

lemma quiet_issue: "c \<noteq> TabsGet t \<Longrightarrow> sleeps [c] = [] \<Longrightarrow> quiet t (issue c f)"
  by (auto simp: quiet_def issue_def fetches_def split: prod.splits)

lemma quiet_await:
  assumes m: "quiet t m" and k: "\<And>x. quiet t (k x)"
  shows "quiet t (await m k)"
  unfolding quiet_def
proof (intro allI impI)
  fix w r w'' assume run: "await m k w = (r, w'')"
  obtain r1 w1 where m1: "m w = (r1, w1)" by (cases "m w")
  from m m1 obtain e1 where e1: "snd w1 = snd w @ e1" "sleeps e1 = []" "fetches t e1 = 0"
    unfolding quiet_def by blast
  show "\<exists>ext. snd w'' = snd w @ ext \<and> sleeps ext = [] \<and> fetches t ext = 0"
  proof (cases r1)
    case (Inl e)
    with run m1 have "w'' = w1" by (simp add: await_def)
    with e1 show ?thesis by blast
  next
    case (Inr x)
    with run m1 have "k x w1 = (r, w'')" by (simp add: await_def)
    with k obtain e2 where e2: "snd w'' = snd w1 @ e2" "sleeps e2 = []" "fetches t e2 = 0"
      unfolding quiet_def by blast
    from e1 e2 have "snd w'' = snd w @ (e1 @ e2)" "sleeps (e1 @ e2) = []" "fetches t (e1 @ e2) = 0"
      by (simp_all add: sleeps_append fetches_append)
    then show ?thesis by blast
  qed
qed

lemma quiet_getPinnedTabCount: "quiet t (getPinnedTabCount H wid)"
  unfolding getPinnedTabCount_def
  by (intro quiet_await quiet_issue quiet_return) simp_all

lemma quiet_flashBadge: "quiet t (flashBadge H g c)"
proof -
  have "quiet t (setTimeout_clear_badge ms :: ('a, unit) io)" for ms
    by (simp add: quiet_def setTimeout_clear_badge_def fetches_def)
  then show ?thesis
    unfolding flashBadge_def chrome_action_setBadgeText_def chrome_action_setBadgeBackgroundColor_def
    by (intro quiet_await quiet_issue) simp_all
qed

lemma await_issue_first:
  assumes run: "await (issue c f) k w = (r, w')" and k: "\<And>x. quiet t (k x)"
  shows "\<exists>ext. snd w' = snd w @ c # ext \<and> sleeps ext = [] \<and> fetches t ext = 0"
proof -
  obtain r1 h1 where f: "f (fst w) = (r1, h1)" by (cases "f (fst w)")
  show ?thesis
  proof (cases r1)
    case (Inl e)
    with run f have "snd w' = snd w @ [c]" by (auto simp: await_def issue_def)
    then show ?thesis by (simp add: fetches_def)
  next
    case (Inr x)
    with run f have "k x (h1, snd w @ [c]) = (r, w')" by (simp add: await_def issue_def)
    with k[of x] obtain ext where "snd w' = (snd w @ [c]) @ ext" "sleeps ext = []" "fetches t ext = 0"
      unfolding quiet_def by (metis snd_conv)
    then show ?thesis by simp
  qed
qed

lemma attempt_body_trace:
  assumes "attempt_body H tabId action targetIndex w = (r, w')"
  shows "\<exists>ext. snd w' = snd w @ TabsGet tabId # ext \<and> sleeps ext = [] \<and> fetches tabId ext = 0"
  using assms unfolding attempt_body_def chrome_tabs_get_def
proof (rule await_issue_first)
  fix tab
  show "quiet tabId (if action = ''pin'' \<and> \<not> pinned tab then
         await (chrome_tabs_update H tabId True) (\<lambda>_.
         await (case targetIndex of
                  Some t \<Rightarrow> await (getPinnedTabCount H (windowId tab)) (\<lambda>n. return (min t (n - 1)))
                | None \<Rightarrow> return 0) (\<lambda>moveToIndex.
         await (chrome_tabs_move H tabId moveToIndex) (\<lambda>_.
         await (flashBadge H Pushpin ''#4CAF50'') (\<lambda>_.
         return True))))
       else if action = ''unpin'' \<and> pinned tab then
         await (getPinnedTabCount H (windowId tab)) (\<lambda>pinnedCount.
         await (chrome_tabs_update H tabId False) (\<lambda>_.
         await (case targetIndex of
                  Some t \<Rightarrow>
                    (let newPinnedCount = pinnedCount - 1;
                         moveToIndex = max newPinnedCount t
                     in chrome_tabs_move H tabId moveToIndex)
                | None \<Rightarrow> return ()) (\<lambda>_.
         await (flashBadge H OutboxTray ''#FF9800'') (\<lambda>_.
         return True))))
       else return True)"
  unfolding chrome_tabs_update_def chrome_tabs_move_def Let_def
  by (cases targetIndex)
     (auto intro!: quiet_await quiet_issue quiet_return quiet_getPinnedTabCount quiet_flashBadge)
qed

declare executeWithRetry_from.simps [simp del]

lemma loop_done:
  "\<not> a < maxR \<Longrightarrow> executeWithRetry_from H tabId action ti maxR a w = (False, w)"
  by (subst executeWithRetry_from.simps) simp

lemma loop_returns:
  "a < maxR \<Longrightarrow> attempt_body H tabId action ti w = (Inr b, w') \<Longrightarrow>
   executeWithRetry_from H tabId action ti maxR a w = (b, w')"
  by (subst executeWithRetry_from.simps) simp

lemma loop_retries:
  "a < maxR \<Longrightarrow> attempt_body H tabId action ti w = (Inl msg, w') \<Longrightarrow>
   includes_str msg ''user may be dragging'' \<Longrightarrow>
   executeWithRetry_from H tabId action ti maxR a w =
     executeWithRetry_from H tabId action ti maxR (Suc a) (sleep H (backoff_delay a) w')"
  by (subst executeWithRetry_from.simps) simp

lemma loop_aborts:
  "a < maxR \<Longrightarrow> attempt_body H tabId action ti w = (Inl msg, w') \<Longrightarrow>
   \<not> includes_str msg ''user may be dragging'' \<Longrightarrow>
   executeWithRetry_from H tabId action ti maxR a w = (False, w')"
  by (subst executeWithRetry_from.simps) simp

lemma executeWithRetry_from_trace:
  "\<exists>ext. snd (snd (executeWithRetry_from H tabId action ti maxR a w)) = snd w @ ext"
proof (induction H tabId action ti maxR a w rule: executeWithRetry_from.induct)
  case (1 H tabId action ti maxR a w)
  show ?case
  proof (cases "a < maxR")
    case False
    then show ?thesis by (simp add: loop_done)
  next
    case True
    obtain r w' where b: "attempt_body H tabId action ti w = (r, w')"
      by (cases "attempt_body H tabId action ti w")
    from attempt_body_trace[OF b] obtain e1 where e1: "snd w' = snd w @ TabsGet tabId # e1" by blast
    show ?thesis
    proof (cases r)
      case (Inr x)
      with True b e1 show ?thesis by (simp add: loop_returns)
    next
      case (Inl msg)
      show ?thesis
      proof (cases "includes_str msg ''user may be dragging''")
        case False
        with True b e1 Inl show ?thesis by (simp add: loop_aborts)
      next
        case yes: True
        from "1.IH"[OF True b[symmetric] Inl yes]
        obtain e2 where "snd (snd (executeWithRetry_from H tabId action ti maxR (Suc a)
            (sleep H (backoff_delay a) w'))) = snd (sleep H (backoff_delay a) w') @ e2" by blast
        with True b e1 Inl yes show ?thesis by (simp add: loop_retries sleep_def)
      qed
    qed
  qed
qed

lemma exhaust_from:
  assumes step: "\<And>a h t. a < maxR \<Longrightarrow> I a h \<Longrightarrow>
            \<exists>msg h' t'. attempt_body H tabId action ti (h, t) = (Inl msg, (h', t'))
              \<and> includes_str msg ''user may be dragging''
              \<and> I (Suc a) (elapse H (backoff_delay a) h')"
  shows "I a h \<Longrightarrow> a \<le> maxR \<Longrightarrow>
         \<exists>h' ext. executeWithRetry_from H tabId action ti maxR a (h, tr) = (False, (h', tr @ ext))
           \<and> sleeps ext = map backoff_delay [a..<maxR] \<and> fetches tabId ext = maxR - a"
proof (induction "maxR - a" arbitrary: a h tr)
  case 0
  then show ?case by (simp add: fetches_def loop_done)
next
  case (Suc n)
  then have lt: "a < maxR" by simp
  from step[OF lt Suc.prems(1), of tr] obtain msg h1 tr1 where
    b: "attempt_body H tabId action ti (h, tr) = (Inl msg, (h1, tr1))"
    and drag: "includes_str msg ''user may be dragging''"
    and inv: "I (Suc a) (elapse H (backoff_delay a) h1)" by blast
  from attempt_body_trace[OF b] obtain e1 where
    e1: "tr1 = tr @ TabsGet tabId # e1" "sleeps e1 = []" "fetches tabId e1 = 0" by auto
  have "n = maxR - Suc a" "Suc a \<le> maxR" using Suc.hyps(2) lt by simp_all
  from Suc.hyps(1)[OF this(1) inv this(2), of "tr1 @ [Sleep (backoff_delay a)]"]
  obtain h' e2 where
    r: "executeWithRetry_from H tabId action ti maxR (Suc a)
          (elapse H (backoff_delay a) h1, tr1 @ [Sleep (backoff_delay a)]) =
        (False, (h', (tr1 @ [Sleep (backoff_delay a)]) @ e2))"
    and e2: "sleeps e2 = map backoff_delay [Suc a..<maxR]" "fetches tabId e2 = maxR - Suc a"
    by blast
  let ?ext = "TabsGet tabId # e1 @ [Sleep (backoff_delay a)] @ e2"
  have "executeWithRetry_from H tabId action ti maxR a (h, tr) = (False, (h', tr @ ?ext))"
    using loop_retries[OF lt b drag] r e1(1) by (simp add: sleep_def)
  moreover have "sleeps ?ext = map backoff_delay [a..<maxR]"
    using e1(2) e2(1) lt by (simp add: sleeps_append upt_conv_Cons)
  moreover have "fetches tabId ?ext = maxR - a"
    using e1(3) e2(2) lt by (simp add: fetches_def)
  ultimately show ?case by blast
qed

lemma loop_fetches_first:
  assumes "a < maxR"
  shows "\<exists>ext. snd (snd (executeWithRetry_from H tabId action ti maxR a w)) =
           snd w @ TabsGet tabId # ext"
proof -
  obtain r w' where b: "attempt_body H tabId action ti w = (r, w')"
    by (cases "attempt_body H tabId action ti w")
  from attempt_body_trace[OF b] obtain e1 where e1: "snd w' = snd w @ TabsGet tabId # e1"
    by blast
  show ?thesis
  proof (cases r)
    case (Inr x)
    with assms b e1 show ?thesis by (simp add: loop_returns)
  next
    case (Inl msg)
    show ?thesis
    proof (cases "includes_str msg ''user may be dragging''")
      case False
      with assms b e1 Inl show ?thesis by (simp add: loop_aborts)
    next
      case True
      from executeWithRetry_from_trace[of H tabId action ti maxR "Suc a"
          "sleep H (backoff_delay a) w'"]
      obtain e2 where "snd (snd (executeWithRetry_from H tabId action ti maxR (Suc a)
          (sleep H (backoff_delay a) w'))) = snd (sleep H (backoff_delay a) w') @ e2" by blast
      with assms b e1 Inl True show ?thesis by (simp add: loop_retries sleep_def)
    qed
  qed
qed

lemma drag_lock_message_includes: "includes_str drag_lock_message ''user may be dragging''"
  by (simp add: drag_lock_message_def)

lemma scripted_elapse: "elapse scripted d h = h"
  by (simp add: scripted_def)


lemma processFinalPosition_missing_tab:
  assumes "tabs_get H tabId h = (Inl e, hA)"
  shows "processFinalPosition H tabId (h, tr) = (hA, tr @ [TabsGet tabId])"
  using assms by (simp add: processFinalPosition_def io_defs)

subsection \<open>Timers, and the states the runtime can be in\<close>

lemma fire_fields [simp]:
  "clock (fire H tm s) = max (clock s) (due tm)"
  "nextTimerId (fire H tm s) = nextTimerId s"
  "pendingTimers (fire H tm s) = filter (\<lambda>x. timer_id x \<noteq> timer_id tm) (pendingTimers s)"
  "dragDebounce (fire H tm s) = (dragDebounce s)(for_tab tm := None)"
  "world (fire H tm s) = processFinalPosition H (for_tab tm) (world s)"
  "passes (fire H tm s) = passes s @
     [\<lparr>pass_tab = for_tab tm, pass_time = max (clock s) (due tm), pass_before = world s,
       pass_after = processFinalPosition H (for_tab tm) (world s)\<rparr>]"
  by (simp_all add: fire_def debounce_callback_def Let_def)

lemma fold_fire_nextTimerId [simp]: "nextTimerId (fold (fire H) tms s) = nextTimerId s"
  by (induction tms arbitrary: s) simp_all

lemma fold_fire_pendingTimers:
  "pendingTimers (fold (fire H) tms s) =
     filter (\<lambda>x. timer_id x \<notin> timer_id ` set tms) (pendingTimers s)"
  by (induction tms arbitrary: s) (auto intro: filter_cong)

lemma fold_fire_dragDebounce:
  "dragDebounce (fold (fire H) tms s) T = (if T \<in> for_tab ` set tms then None else dragDebounce s T)"
  by (induction tms arbitrary: s) auto

lemma fold_fire_clock_le:
  "clock s \<le> t \<Longrightarrow> \<forall>tm \<in> set tms. due tm \<le> t \<Longrightarrow> clock (fold (fire H) tms s) \<le> t"
  by (induction tms arbitrary: s) auto

lemma run_until_alt: "run_until H t s = (fold (fire H) (due_by t s) s)\<lparr>clock := max (clock (fold (fire H) (due_by t s) s)) t\<rparr>"
  by (simp add: run_until_def Let_def)

lemma set_due_by [simp]: "set (due_by t s) = {tm \<in> set (pendingTimers s). due tm \<le> t}"
  by (auto simp: due_by_def)

lemma sorted_due_by [simp]: "sorted (map due (due_by t s))"
  by (simp add: due_by_def)


lemma run_until_clock_ge: "t \<le> clock (run_until H t s)"
  by (simp add: run_until_alt)

lemma run_until_nextTimerId [simp]: "nextTimerId (run_until H t s) = nextTimerId s"
  by (simp add: run_until_alt)

lemma run_until_pendingTimers:
  "distinct (map timer_id (pendingTimers s)) \<Longrightarrow>
   pendingTimers (run_until H t s) = filter (\<lambda>tm. t < due tm) (pendingTimers s)"
  by (auto simp: run_until_alt fold_fire_pendingTimers distinct_map inj_on_def intro!: filter_cong)

lemma run_until_dragDebounce:
  "dragDebounce (run_until H t s) T =
     (if \<exists>tm \<in> set (pendingTimers s). for_tab tm = T \<and> due tm \<le> t then None else dragDebounce s T)"
  by (auto simp: run_until_alt fold_fire_dragDebounce)

lemma wf_iff:
  "wf s \<longleftrightarrow>
     distinct (map timer_id (pendingTimers s))
     \<and> (\<forall>tm \<in> set (pendingTimers s). timer_id tm < nextTimerId s \<and> clock s < due tm
            \<and> dragDebounce s (for_tab tm) = Some (timer_id tm))
     \<and> (\<forall>T h. dragDebounce s T = Some h \<longrightarrow>
            (\<exists>tm \<in> set (pendingTimers s). timer_id tm = h \<and> for_tab tm = T))"
  by (simp add: wf_def list_all_iff list_ex_iff)

lemma wf_distinct: "wf s \<Longrightarrow> distinct (map timer_id (pendingTimers s))"
  by (simp add: wf_iff)

lemma wf_timer:
  "wf s \<Longrightarrow> tm \<in> set (pendingTimers s) \<Longrightarrow>
   timer_id tm < nextTimerId s \<and> clock s < due tm
   \<and> dragDebounce s (for_tab tm) = Some (timer_id tm)"
  by (simp add: wf_iff)

lemma wf_entry:
  "wf s \<Longrightarrow> dragDebounce s T = Some h \<Longrightarrow>
   \<exists>tm \<in> set (pendingTimers s). timer_id tm = h \<and> for_tab tm = T"
  unfolding wf_iff by blast

lemma wf_same_id:
  "wf s \<Longrightarrow> a \<in> set (pendingTimers s) \<Longrightarrow> b \<in> set (pendingTimers s) \<Longrightarrow>
   timer_id a = timer_id b \<Longrightarrow> a = b"
  using wf_distinct[of s] by (auto simp: distinct_map inj_on_def)

lemma wf_same_tab:
  assumes "wf s" "a \<in> set (pendingTimers s)" "b \<in> set (pendingTimers s)" "for_tab a = for_tab b"
  shows "a = b"
proof -
  from wf_timer[OF assms(1,2)] wf_timer[OF assms(1,3)] assms(4)
  have "timer_id a = timer_id b" by simp
  with assms show ?thesis by (blast intro: wf_same_id)
qed

lemma wf_timers_of:
  assumes "wf s"
  shows "timers_of T s = [] \<or> (\<exists>tm. timers_of T s = [tm])"
proof (cases "timers_of T s")
  case Nil
  then show ?thesis by simp
next
  case (Cons a rest)
  have d: "distinct (timers_of T s)"
    using assms by (auto simp: wf_iff timers_of_def distinct_map intro: distinct_filter)
  have "rest = []"
  proof (cases rest)
    case Nil
    then show ?thesis .
  next
    case (Cons b rest')
    have "a \<in> set (timers_of T s)" "b \<in> set (timers_of T s)"
      using \<open>timers_of T s = a # rest\<close> Cons by simp_all
    then have "a = b" using wf_same_tab[OF assms, of a b] by (auto simp: timers_of_def)
    with d \<open>timers_of T s = a # rest\<close> Cons show ?thesis by simp
  qed
  with Cons show ?thesis by simp
qed

lemma wf_run_until:
  assumes "wf s"
  shows "wf (run_until H t s)"
proof -
  have d: "distinct (map timer_id (pendingTimers s))" using assms by (simp add: wf_iff)
  have "clock (fold (fire H) (due_by t s) s) \<le> max (clock s) t"
    by (rule fold_fire_clock_le) auto
  then have c: "clock (run_until H t s) \<le> max (clock s) t"
    by (simp add: run_until_alt)
  show ?thesis
    unfolding wf_iff[of "run_until H t s"] run_until_pendingTimers[OF d]
  proof (intro conjI ballI allI impI)
    show "distinct (map timer_id (filter (\<lambda>tm. t < due tm) (pendingTimers s)))"
      using d by (simp add: distinct_map_filter)
  next
    fix tm assume tm: "tm \<in> set (filter (\<lambda>tm. t < due tm) (pendingTimers s))"
    then have m: "tm \<in> set (pendingTimers s)" and l: "t < due tm" by simp_all
    from assms m have f: "timer_id tm < nextTimerId s" "clock s < due tm"
      "dragDebounce s (for_tab tm) = Some (timer_id tm)" by (auto simp: wf_iff)
    show "timer_id tm < nextTimerId (run_until H t s)" using f by simp
    show "clock (run_until H t s) < due tm" using c f l by simp
    have "\<not> (\<exists>x \<in> set (pendingTimers s). for_tab x = for_tab tm \<and> due x \<le> t)"
      using wf_same_tab[OF assms _ m] l by fastforce
    then show "dragDebounce (run_until H t s) (for_tab tm) = Some (timer_id tm)"
      using f by (simp add: run_until_dragDebounce)
  next
    fix T h assume e: "dragDebounce (run_until H t s) T = Some h"
    then have no: "\<not> (\<exists>x \<in> set (pendingTimers s). for_tab x = T \<and> due x \<le> t)"
      and old: "dragDebounce s T = Some h"
      by (auto simp: run_until_dragDebounce split: if_splits)
    from wf_entry[OF assms old] obtain tm where "tm \<in> set (pendingTimers s)" "timer_id tm = h" "for_tab tm = T"
      by blast
    with no show "\<exists>tm \<in> set (filter (\<lambda>tm. t < due tm) (pendingTimers s)). timer_id tm = h \<and> for_tab tm = T"
      by (intro bexI[of _ tm]) auto
  qed
qed

lemma onMoved_fields:
  "clock (onMoved T mi s) = clock s"
  "nextTimerId (onMoved T mi s) = Suc (nextTimerId s)"
  "pendingTimers (onMoved T mi s) =
     (case dragDebounce s T of Some h \<Rightarrow> filter (\<lambda>tm. timer_id tm \<noteq> h) (pendingTimers s)
      | None \<Rightarrow> pendingTimers s)
     @ [\<lparr>timer_id = nextTimerId s, due = clock s + DEBOUNCE_DELAY, for_tab = T\<rparr>]"
  "dragDebounce (onMoved T mi s) = (dragDebounce s)(T \<mapsto> nextTimerId s)"
  "passes (onMoved T mi s) = passes s"
  by (auto simp: onMoved_def setTimeout_def clearTimeout_def Let_def split: option.splits)

lemma onRemoved_fields:
  "clock (onRemoved T s) = clock s"
  "nextTimerId (onRemoved T s) = nextTimerId s"
  "pendingTimers (onRemoved T s) =
     (case dragDebounce s T of Some h \<Rightarrow> filter (\<lambda>tm. timer_id tm \<noteq> h) (pendingTimers s)
      | None \<Rightarrow> pendingTimers s)"
  "dragDebounce (onRemoved T s) = (dragDebounce s)(T := None)"
  "passes (onRemoved T s) = passes s"
  by (auto simp: onRemoved_def clearTimeout_def split: option.splits)

lemma wf_clear:
  assumes "wf s"
  shows "(case dragDebounce s T of Some h \<Rightarrow> filter (\<lambda>tm. timer_id tm \<noteq> h) (pendingTimers s)
          | None \<Rightarrow> pendingTimers s) = filter (\<lambda>tm. for_tab tm \<noteq> T) (pendingTimers s)"
proof (cases "dragDebounce s T")
  case None
  with assms have "\<forall>tm \<in> set (pendingTimers s). for_tab tm \<noteq> T" by (auto simp: wf_iff)
  with None show ?thesis by simp
next
  case (Some h)
  from wf_entry[OF assms Some] obtain tm where tm: "tm \<in> set (pendingTimers s)" "timer_id tm = h" "for_tab tm = T"
    by blast
  have "timer_id x \<noteq> h \<longleftrightarrow> for_tab x \<noteq> T" if "x \<in> set (pendingTimers s)" for x
  proof
    assume "timer_id x \<noteq> h"
    then show "for_tab x \<noteq> T" using wf_same_tab[OF assms that tm(1)] tm by auto
  next
    assume "for_tab x \<noteq> T"
    then show "timer_id x \<noteq> h" using wf_same_id[OF assms that tm(1)] tm by auto
  qed
  with Some show ?thesis by (auto intro: filter_cong)
qed


lemma onMoved_pendingTimers:
  assumes "wf s"
  shows "pendingTimers (onMoved T mi s) =
     filter (\<lambda>tm. for_tab tm \<noteq> T) (pendingTimers s)
     @ [\<lparr>timer_id = nextTimerId s, due = clock s + DEBOUNCE_DELAY, for_tab = T\<rparr>]"
  by (simp only: onMoved_fields wf_clear[OF assms])

lemma onRemoved_pendingTimers:
  assumes "wf s"
  shows "pendingTimers (onRemoved T s) = filter (\<lambda>tm. for_tab tm \<noteq> T) (pendingTimers s)"
  by (simp only: onRemoved_fields wf_clear[OF assms])

lemma wf_onMoved:
  assumes "wf s"
  shows "wf (onMoved T mi s)"
proof -
  let ?new = "\<lparr>timer_id = nextTimerId s, due = clock s + DEBOUNCE_DELAY, for_tab = T\<rparr>"
  let ?old = "filter (\<lambda>tm. for_tab tm \<noteq> T) (pendingTimers s)"
  have p: "pendingTimers (onMoved T mi s) = ?old @ [?new]"
    by (rule onMoved_pendingTimers[OF assms])
  have fresh: "nextTimerId s \<notin> timer_id ` set (pendingTimers s)"
  proof
    assume "nextTimerId s \<in> timer_id ` set (pendingTimers s)"
    then obtain tm where tm: "tm \<in> set (pendingTimers s)" "timer_id tm = nextTimerId s" by auto
    from wf_timer[OF assms tm(1)] tm(2) show False by simp
  qed
  have 1: "distinct (map timer_id (?old @ [?new]))"
    using wf_distinct[OF assms] fresh by (auto simp: distinct_map_filter)
  have 2: "timer_id tm < Suc (nextTimerId s) \<and> clock s < due tm
        \<and> ((dragDebounce s)(T \<mapsto> nextTimerId s)) (for_tab tm) = Some (timer_id tm)"
    if "tm \<in> set (?old @ [?new])" for tm
  proof (cases "tm = ?new")
    case True
    then show ?thesis by (simp add: DEBOUNCE_DELAY_def)
  next
    case False
    with that have "tm \<in> set (pendingTimers s)" "for_tab tm \<noteq> T" by auto
    with wf_timer[OF assms this(1)] show ?thesis by simp
  qed
  have 3: "\<exists>tm \<in> set (?old @ [?new]). timer_id tm = h \<and> for_tab tm = U"
    if e: "((dragDebounce s)(T \<mapsto> nextTimerId s)) U = Some h" for U h
  proof (cases "U = T")
    case True
    with e show ?thesis by simp
  next
    case False
    with e have "dragDebounce s U = Some h" by simp
    from wf_entry[OF assms this] obtain tm where
      "tm \<in> set (pendingTimers s)" "timer_id tm = h" "for_tab tm = U" by blast
    with False have "tm \<in> set (?old @ [?new])" by simp
    with \<open>timer_id tm = h\<close> \<open>for_tab tm = U\<close> show ?thesis by blast
  qed
  show ?thesis
    unfolding wf_iff[of "onMoved T mi s"] p onMoved_fields(1,2,4)
    using 1 2 3 by blast
qed

lemma wf_onRemoved:
  assumes "wf s"
  shows "wf (onRemoved T s)"
proof -
  let ?old = "filter (\<lambda>tm. for_tab tm \<noteq> T) (pendingTimers s)"
  have p: "pendingTimers (onRemoved T s) = ?old"
    by (rule onRemoved_pendingTimers[OF assms])
  have 1: "distinct (map timer_id ?old)"
    using wf_distinct[OF assms] by (simp add: distinct_map_filter)
  have 2: "timer_id tm < nextTimerId s \<and> clock s < due tm
        \<and> ((dragDebounce s)(T := None)) (for_tab tm) = Some (timer_id tm)"
    if "tm \<in> set ?old" for tm
  proof -
    from that have "tm \<in> set (pendingTimers s)" "for_tab tm \<noteq> T" by auto
    with wf_timer[OF assms this(1)] show ?thesis by simp
  qed
  have 3: "\<exists>tm \<in> set ?old. timer_id tm = h \<and> for_tab tm = U"
    if e: "((dragDebounce s)(T := None)) U = Some h" for U h
  proof -
    from e have "U \<noteq> T" "dragDebounce s U = Some h" by (auto split: if_splits)
    from wf_entry[OF assms this(2)] obtain tm where
      "tm \<in> set (pendingTimers s)" "timer_id tm = h" "for_tab tm = U" by blast
    with \<open>U \<noteq> T\<close> have "tm \<in> set ?old" by simp
    with \<open>timer_id tm = h\<close> \<open>for_tab tm = U\<close> show ?thesis by blast
  qed
  show ?thesis
    unfolding wf_iff[of "onRemoved T s"] p onRemoved_fields(1,2,4)
    using 1 2 3 by blast
qed

lemma wf_deliver: "wf s \<Longrightarrow> wf (deliver H ev s)"
  by (cases "(H, ev, s)" rule: deliver.cases) (simp_all add: wf_run_until wf_onMoved wf_onRemoved)


lemma wf_initial: "wf (initial w)"
  by (simp add: wf_def initial_def)

lemma fold_fire_passes:
  "sorted (map due tms) \<Longrightarrow> \<forall>tm \<in> set tms. clock s \<le> due tm \<Longrightarrow>
   \<exists>ps. passes (fold (fire H) tms s) = passes s @ ps
        \<and> list_all2 (\<lambda>p tm. good_pass H (for_tab tm) (due tm) p) ps tms"
proof (induction tms arbitrary: s)
  case Nil
  then show ?case by simp
next
  case (Cons tm tms)
  have "\<exists>ps. passes (fold (fire H) tms (fire H tm s)) = passes (fire H tm s) @ ps
        \<and> list_all2 (\<lambda>p tm. good_pass H (for_tab tm) (due tm) p) ps tms"
    using Cons.prems by (intro Cons.IH) (auto simp: max_def)
  then obtain ps where ps: "passes (fold (fire H) tms (fire H tm s)) = passes (fire H tm s) @ ps"
    "list_all2 (\<lambda>p tm. good_pass H (for_tab tm) (due tm) p) ps tms" by blast
  let ?p = "\<lparr>pass_tab = for_tab tm, pass_time = max (clock s) (due tm), pass_before = world s,
       pass_after = processFinalPosition H (for_tab tm) (world s)\<rparr>"
  have "good_pass H (for_tab tm) (due tm) ?p"
    using Cons.prems(2) by (simp add: good_pass_def max_def)
  with ps have "passes (fold (fire H) (tm # tms) s) = passes s @ (?p # ps)"
    "list_all2 (\<lambda>p tm. good_pass H (for_tab tm) (due tm) p) (?p # ps) (tm # tms)"
    by simp_all
  then show ?case by blast
qed

lemma good_passes_filter:
  "list_all2 (\<lambda>p tm. good_pass H (for_tab tm) (due tm) p) ps tms \<Longrightarrow>
   list_all2 (\<lambda>p tm. good_pass H T (due tm) p)
     (filter (\<lambda>p. pass_tab p = T) ps) (filter (\<lambda>tm. for_tab tm = T) tms)"
  by (induction ps tms rule: list_all2_induct) (auto simp: good_pass_def)

lemma run_until_passes_of:
  assumes "\<forall>tm \<in> set (pendingTimers s). clock s \<le> due tm"
  shows "\<exists>ps. passes_of T (run_until H t s) = passes_of T s @ ps
           \<and> list_all2 (\<lambda>p tm. good_pass H T (due tm) p) ps
                (sort_key due (filter (\<lambda>tm. due tm \<le> t) (timers_of T s)))"
proof -
  from fold_fire_passes[of "due_by t s" s H] assms
  obtain ps where ps: "passes (fold (fire H) (due_by t s) s) = passes s @ ps"
    "list_all2 (\<lambda>p tm. good_pass H (for_tab tm) (due tm) p) ps (due_by t s)"
    by auto
  have "filter (\<lambda>tm. for_tab tm = T) (due_by t s) =
        sort_key due (filter (\<lambda>tm. due tm \<le> t) (timers_of T s))"
    by (simp add: due_by_def timers_of_def filter_sort conj_commute)
  with good_passes_filter[OF ps(2), of T]
  have "list_all2 (\<lambda>p tm. good_pass H T (due tm) p) (filter (\<lambda>p. pass_tab p = T) ps)
      (sort_key due (filter (\<lambda>tm. due tm \<le> t) (timers_of T s)))" by simp
  moreover have "passes_of T (run_until H t s) = passes_of T s @ filter (\<lambda>p. pass_tab p = T) ps"
    using ps(1) by (simp add: passes_of_def run_until_alt)
  ultimately show ?thesis by blast
qed

lemma wf_clock_le_due: "wf s \<Longrightarrow> \<forall>tm \<in> set (pendingTimers s). clock s \<le> due tm"
  using wf_timer by (auto intro: less_imp_le)

lemma run_until_timers_of:
  "wf s \<Longrightarrow> timers_of T (run_until H t s) = filter (\<lambda>tm. t < due tm) (timers_of T s)"
  by (auto simp: timers_of_def run_until_pendingTimers[OF wf_distinct] intro: filter_cong)

lemma run_until_not_due:
  assumes "wf s" "\<forall>tm \<in> set (timers_of T s). t < due tm"
  shows "timers_of T (run_until H t s) = timers_of T s"
    and "passes_of T (run_until H t s) = passes_of T s"
proof -
  show "timers_of T (run_until H t s) = timers_of T s"
    using assms by (simp add: run_until_timers_of)
  have "filter (\<lambda>tm. due tm \<le> t) (timers_of T s) = []"
    using assms(2) by (auto simp: filter_empty_conv)
  with run_until_passes_of[OF wf_clock_le_due[OF assms(1)], of T H t]
  show "passes_of T (run_until H t s) = passes_of T s" by auto
qed



lemma onMoved_view:
  assumes "wf s"
  shows "timers_of T (onMoved T mi s) =
           [\<lparr>timer_id = nextTimerId s, due = clock s + DEBOUNCE_DELAY, for_tab = T\<rparr>]"
    and "passes_of T (onMoved T mi s) = passes_of T s"
    and "U \<noteq> T \<Longrightarrow> timers_of T (onMoved U mi s) = timers_of T s"
    and "passes_of T (onMoved U mi s) = passes_of T s"
  by (auto simp: timers_of_def passes_of_def onMoved_pendingTimers[OF assms] onMoved_fields(5)
      intro: filter_cong)

lemma onRemoved_view:
  assumes "wf s"
  shows "timers_of T (onRemoved T s) = []"
    and "dragDebounce (onRemoved T s) T = None"
    and "passes_of T (onRemoved U s) = passes_of T s"
    and "U \<noteq> T \<Longrightarrow> timers_of T (onRemoved U s) = timers_of T s"
  by (auto simp: timers_of_def passes_of_def onRemoved_pendingTimers[OF assms]
      onRemoved_fields(4,5) intro: filter_cong)










lemma run_append: "run H (xs @ ys) s = run H ys (run H xs s)"
  by (simp add: run_def)




lemma untracked_stays:
  assumes "wf s" "timers_of T s = []" "\<forall>e \<in> set evs. \<not> is_move_of T (snd e)"
  shows "wf (run H evs s) \<and> timers_of T (run H evs s) = [] \<and> passes_of T (run H evs s) = passes_of T s"
  using assms
proof (induction evs arbitrary: s)
  case Nil
  then show ?case by (simp add: run_def)
next
  case (Cons e evs)
  obtain t ev where e: "e = (t, ev)" by (cases e)
  let ?s0 = "run_until H t s"
  have w0: "wf ?s0" by (rule wf_run_until[OF Cons.prems(1)])
  have nd: "\<forall>tm \<in> set (timers_of T s). t < due tm" using Cons.prems(2) by simp
  have t0: "timers_of T ?s0 = []" and p0: "passes_of T ?s0 = passes_of T s"
    using run_until_not_due[OF Cons.prems(1) nd, of H] Cons.prems(2) by simp_all
  have w1: "wf (deliver H e s)" by (rule wf_deliver[OF Cons.prems(1)])
  have v: "timers_of T (deliver H e s) = [] \<and> passes_of T (deliver H e s) = passes_of T s"
  proof (cases ev)
    case (Moved U f i)
    with Cons.prems(3) e have "U \<noteq> T" by simp
    with Moved e t0 p0 show ?thesis
      by (simp add: onMoved_view(3,4)[OF w0])
  next
    case (Removed U)
    with e t0 p0 show ?thesis
      by (cases "U = T") (simp_all add: onRemoved_view[OF w0])
  qed
  from Cons.IH[OF w1] v Cons.prems(3)
  show ?case by (simp add: run_def)
qed

lemmas runtime_defs = run_until_def due_by_def onMoved_def onRemoved_def setTimeout_def
  clearTimeout_def fire_def debounce_callback_def DEBOUNCE_DELAY_def

lemma onMoved_ignores_moveInfo: "onMoved T mi s = onMoved T mi' s"
  by (simp add: onMoved_def)

section \<open>The zone classifier\<close>

text \<open>
  C1. For an unpinned tab the classifier answers \<open>Pin index\<close> exactly when there are no
  pinned tabs and the tab is at index 0, or there are pinned tabs and the tab is at
  index \<open>pinnedCount\<close>; every other unpinned position is \<open>NoAction\<close>. In particular
  \<open>(pinnedCount = 0, index = 0)\<close> gives \<open>Pin 0\<close> and \<open>(pinnedCount = 3, index = 3)\<close>
  gives \<open>Pin 3\<close>.
\<close>

theorem classify_unpinned:
  "classify \<lparr>tab_id = t, windowId = wid, index = i, pinned = False\<rparr> pinnedCount =
     (if (pinnedCount = 0 \<and> i = 0) \<or> (pinnedCount > 0 \<and> i = pinnedCount)
      then Pin i else NoAction)
   \<and> classify \<lparr>tab_id = t, windowId = wid, index = 0, pinned = False\<rparr> 0 = Pin 0
   \<and> classify \<lparr>tab_id = t, windowId = wid, index = 3, pinned = False\<rparr> 3 = Pin 3"
  by (simp add: classify_def)

text \<open>
  C2. For a pinned tab the classifier answers \<open>Unpin index\<close> exactly when
  \<open>pinnedCount \<ge> 1\<close> and \<open>index \<ge> max 0 (pinnedCount - 2)\<close>, and \<open>NoAction\<close>
  otherwise. In particular \<open>(pinnedCount = 3, index = 2)\<close> gives \<open>Unpin 2\<close> and
  \<open>(pinnedCount = 3, index = 0)\<close> gives \<open>NoAction\<close>.
\<close>

theorem classify_pinned:
  "classify \<lparr>tab_id = t, windowId = wid, index = i, pinned = True\<rparr> pinnedCount =
     (if pinnedCount \<ge> 1 \<and> i \<ge> max 0 (pinnedCount - 2) then Unpin i else NoAction)
   \<and> classify \<lparr>tab_id = t, windowId = wid, index = 2, pinned = True\<rparr> 3 = Unpin 2
   \<and> classify \<lparr>tab_id = t, windowId = wid, index = 0, pinned = True\<rparr> 3 = NoAction"
  by (simp add: classify_def)

section \<open>The retry executor\<close>

text \<open>
  C3 (as amended). An unpin attempt, at any turn of the retry loop, on a tab that is
  pinned, in which the calls the attempt makes return without error: the worker reads
  the window's pinned count (\<open>length ps\<close>) before it unpins, sets pinned to false,
  and, when a target index is given, moves the tab to
  \<open>max (pinnedCount_before - 1) targetIndex\<close>; with no target index it moves nothing.
  Either way it flashes the outbox badge on orange and returns success. At the first
  turn this is the whole of \<^verbatim>\<open>executeWithRetry\<close>.
\<close>

theorem executeWithRetry_unpin:
  assumes "attempt < maxRetries"
      and "tabs_get H tabId hA = (Inr tab, hB)" and "pinned tab"
      and "tabs_query_pinned H (windowId tab) hB = (Inr ps, hC)"
      and "tabs_update H tabId False hC = (Inr (), hD)"
      and "case targetIndex of
             Some t \<Rightarrow> tabs_move H tabId (max (int (length ps) - 1) t) hD = (Inr (), hE)
           | None \<Rightarrow> hE = hD"
      and "setBadgeText H OutboxTray hE = (Inr (), hF)"
      and "setBadgeBackgroundColor H ''#FF9800'' hF = (Inr (), hG)"
  shows "executeWithRetry_from H tabId ''unpin'' targetIndex maxRetries attempt (hA, tr) =
           (True, (hG, tr @ [TabsGet tabId, TabsQueryPinned (windowId tab), TabsUpdate tabId False]
                     @ (case targetIndex of
                          Some t \<Rightarrow> [TabsMove tabId (max (int (length ps) - 1) t)]
                        | None \<Rightarrow> [])
                     @ [SetBadgeText OutboxTray, SetBadgeBackgroundColor ''#FF9800'',
                        SetTimeoutClearBadge 1500]))
       \<and> (attempt = 0 \<longrightarrow>
            executeWithRetry H tabId ''unpin'' targetIndex maxRetries (hA, tr) =
              executeWithRetry_from H tabId ''unpin'' targetIndex maxRetries attempt (hA, tr))"
proof -
  have "attempt_body H tabId ''unpin'' targetIndex (hA, tr) =
           (Inr True, (hG, tr @ [TabsGet tabId, TabsQueryPinned (windowId tab), TabsUpdate tabId False]
                     @ (case targetIndex of
                          Some t \<Rightarrow> [TabsMove tabId (max (int (length ps) - 1) t)]
                        | None \<Rightarrow> [])
                     @ [SetBadgeText OutboxTray, SetBadgeBackgroundColor ''#FF9800'',
                        SetTimeoutClearBadge 1500]))"
    using assms(2-) by (cases targetIndex) (simp_all add: attempt_body_def io_defs Let_def)
  then show ?thesis using assms(1) by (simp add: executeWithRetry_def loop_returns)
qed

text \<open>
  Three tabs are pinned and the tab was dropped at index 1. The first attempt's update
  throws the drag-lock error; the second attempt, after a wait of 100, goes through:
  the tab is unpinned and moved to index 2. The same tab with no target index is
  unpinned at the first attempt and not moved.
\<close>

theorem executeWithRetry_unpin_witness:
  "executeWithRetry scripted 7 ''unpin'' (Some 1) 15
     ([GivesTab \<lparr>tab_id = 7, windowId = 1, index = 1, pinned = True\<rparr>,
       GivesTabs [\<lparr>tab_id = 5, windowId = 1, index = 0, pinned = True\<rparr>,
                  \<lparr>tab_id = 7, windowId = 1, index = 1, pinned = True\<rparr>,
                  \<lparr>tab_id = 6, windowId = 1, index = 2, pinned = True\<rparr>],
       Throws drag_lock_message,
       GivesTab \<lparr>tab_id = 7, windowId = 1, index = 1, pinned = True\<rparr>,
       GivesTabs [\<lparr>tab_id = 5, windowId = 1, index = 0, pinned = True\<rparr>,
                  \<lparr>tab_id = 7, windowId = 1, index = 1, pinned = True\<rparr>,
                  \<lparr>tab_id = 6, windowId = 1, index = 2, pinned = True\<rparr>],
       GivesUnit, GivesUnit, GivesUnit, GivesUnit], []) =
     (True, ([], [TabsGet 7, TabsQueryPinned 1, TabsUpdate 7 False, Sleep 100,
                  TabsGet 7, TabsQueryPinned 1, TabsUpdate 7 False, TabsMove 7 2,
                  SetBadgeText OutboxTray, SetBadgeBackgroundColor ''#FF9800'',
                  SetTimeoutClearBadge 1500]))
   \<and> executeWithRetry scripted 7 ''unpin'' None 15
     ([GivesTab \<lparr>tab_id = 7, windowId = 1, index = 1, pinned = True\<rparr>,
       GivesTabs [\<lparr>tab_id = 7, windowId = 1, index = 1, pinned = True\<rparr>],
       GivesUnit, GivesUnit, GivesUnit], []) =
     (True, ([], [TabsGet 7, TabsQueryPinned 1, TabsUpdate 7 False,
                  SetBadgeText OutboxTray, SetBadgeBackgroundColor ''#FF9800'',
                  SetTimeoutClearBadge 1500]))"
proof -
  let ?t = "\<lparr>tab_id = 7, windowId = 1, index = 1, pinned = True\<rparr>"
  let ?ps = "[\<lparr>tab_id = 5, windowId = 1, index = 0, pinned = True\<rparr>, ?t,
              \<lparr>tab_id = 6, windowId = 1, index = 2, pinned = True\<rparr>]"
  let ?clean = "[GivesTab ?t, GivesTabs ?ps, GivesUnit, GivesUnit, GivesUnit, GivesUnit]"
  have first: "attempt_body scripted 7 ''unpin'' (Some 1)
      (GivesTab ?t # GivesTabs ?ps # Throws drag_lock_message # ?clean, []) =
      (Inl drag_lock_message, (?clean, [TabsGet 7, TabsQueryPinned 1, TabsUpdate 7 False]))"
    by (simp add: attempt_body_def io_defs scripted_def)
  have retried: "executeWithRetry scripted 7 ''unpin'' (Some 1) 15
      (GivesTab ?t # GivesTabs ?ps # Throws drag_lock_message # ?clean, []) =
    executeWithRetry_from scripted 7 ''unpin'' (Some 1) 15 1
      (?clean, [TabsGet 7, TabsQueryPinned 1, TabsUpdate 7 False, Sleep 100])"
    unfolding executeWithRetry_def
    using loop_retries[OF _ first drag_lock_message_includes, of 0 15]
    by (simp add: sleep_def backoff_delay_def scripted_elapse)
  have second: "executeWithRetry_from scripted 7 ''unpin'' (Some 1) 15 1
      (?clean, [TabsGet 7, TabsQueryPinned 1, TabsUpdate 7 False, Sleep 100]) =
     (True, ([], [TabsGet 7, TabsQueryPinned 1, TabsUpdate 7 False, Sleep 100,
                  TabsGet 7, TabsQueryPinned 1, TabsUpdate 7 False, TabsMove 7 2,
                  SetBadgeText OutboxTray, SetBadgeBackgroundColor ''#FF9800'',
                  SetTimeoutClearBadge 1500]))"
    using executeWithRetry_unpin [where attempt = 1 and maxRetries = 15 and H = scripted
      and tabId = 7 and targetIndex = "Some 1"
      and tr = "[TabsGet 7, TabsQueryPinned 1, TabsUpdate 7 False, Sleep 100]"
      and tab = ?t and ps = ?ps and hA = ?clean
      and hB = "[GivesTabs ?ps, GivesUnit, GivesUnit, GivesUnit, GivesUnit]"
      and hC = "[GivesUnit, GivesUnit, GivesUnit, GivesUnit]"
      and hD = "[GivesUnit, GivesUnit, GivesUnit]" and hE = "[GivesUnit, GivesUnit]"
      and hF = "[GivesUnit]" and hG = "[]"]
    by (simp add: scripted_def)
  have plain: "executeWithRetry scripted 7 ''unpin'' None 15
     ([GivesTab ?t, GivesTabs [?t], GivesUnit, GivesUnit, GivesUnit], []) =
     (True, ([], [TabsGet 7, TabsQueryPinned 1, TabsUpdate 7 False,
                  SetBadgeText OutboxTray, SetBadgeBackgroundColor ''#FF9800'',
                  SetTimeoutClearBadge 1500]))"
    using executeWithRetry_unpin [where attempt = 0 and maxRetries = 15 and H = scripted
      and tabId = 7 and targetIndex = None and tr = "[]"
      and tab = ?t and ps = "[?t]"
      and hA = "[GivesTab ?t, GivesTabs [?t], GivesUnit, GivesUnit, GivesUnit]"
      and hB = "[GivesTabs [?t], GivesUnit, GivesUnit, GivesUnit]"
      and hC = "[GivesUnit, GivesUnit, GivesUnit]"
      and hD = "[GivesUnit, GivesUnit]" and hE = "[GivesUnit, GivesUnit]"
      and hF = "[GivesUnit]" and hG = "[]"]
    by (simp add: scripted_def)
  from retried second plain show ?thesis by simp
qed

text \<open>
  The claim as it was stated (every unpin execution on a pinned tab moves the tab, gives
  the feedback and returns success) fails when a call of the attempt throws. Here the
  update goes through and the move throws the drag-lock error: after the wait the tab
  is found unpinned and the executor returns success, with no move done and no badge.
  When the move throws another error, the executor returns failure.
\<close>

theorem executeWithRetry_unpin_counterexample:
  "tabs_move scripted 7 2
      [Throws drag_lock_message,
       GivesTab \<lparr>tab_id = 7, windowId = 1, index = 2, pinned = False\<rparr>] =
     (Inl drag_lock_message, [GivesTab \<lparr>tab_id = 7, windowId = 1, index = 2, pinned = False\<rparr>])
   \<and> executeWithRetry scripted 7 ''unpin'' (Some 1) 15
     ([GivesTab \<lparr>tab_id = 7, windowId = 1, index = 1, pinned = True\<rparr>,
       GivesTabs [\<lparr>tab_id = 5, windowId = 1, index = 0, pinned = True\<rparr>,
                  \<lparr>tab_id = 7, windowId = 1, index = 1, pinned = True\<rparr>,
                  \<lparr>tab_id = 6, windowId = 1, index = 2, pinned = True\<rparr>],
       GivesUnit,
       Throws drag_lock_message,
       GivesTab \<lparr>tab_id = 7, windowId = 1, index = 2, pinned = False\<rparr>], []) =
     (True, ([], [TabsGet 7, TabsQueryPinned 1, TabsUpdate 7 False, TabsMove 7 2, Sleep 100,
                  TabsGet 7]))
   \<and> executeWithRetry scripted 7 ''unpin'' (Some 1) 15
     ([GivesTab \<lparr>tab_id = 7, windowId = 1, index = 1, pinned = True\<rparr>,
       GivesTabs [\<lparr>tab_id = 5, windowId = 1, index = 0, pinned = True\<rparr>,
                  \<lparr>tab_id = 7, windowId = 1, index = 1, pinned = True\<rparr>,
                  \<lparr>tab_id = 6, windowId = 1, index = 2, pinned = True\<rparr>],
       GivesUnit,
       Throws ''No tab with id: 7.''], []) =
     (False, ([], [TabsGet 7, TabsQueryPinned 1, TabsUpdate 7 False, TabsMove 7 2]))"
proof -
  let ?t = "\<lparr>tab_id = 7, windowId = 1, index = 1, pinned = True\<rparr>"
  let ?u = "\<lparr>tab_id = 7, windowId = 1, index = 2, pinned = False\<rparr>"
  let ?ps = "[\<lparr>tab_id = 5, windowId = 1, index = 0, pinned = True\<rparr>, ?t,
              \<lparr>tab_id = 6, windowId = 1, index = 2, pinned = True\<rparr>]"
  have first: "attempt_body scripted 7 ''unpin'' (Some 1)
      ([GivesTab ?t, GivesTabs ?ps, GivesUnit, Throws drag_lock_message, GivesTab ?u], []) =
      (Inl drag_lock_message,
       ([GivesTab ?u], [TabsGet 7, TabsQueryPinned 1, TabsUpdate 7 False, TabsMove 7 2]))"
    by (simp add: attempt_body_def io_defs scripted_def)
  have second: "attempt_body scripted 7 ''unpin'' (Some 1)
      ([GivesTab ?u], [TabsGet 7, TabsQueryPinned 1, TabsUpdate 7 False, TabsMove 7 2, Sleep 100]) =
      (Inr True, ([], [TabsGet 7, TabsQueryPinned 1, TabsUpdate 7 False, TabsMove 7 2, Sleep 100,
                       TabsGet 7]))"
    by (simp add: attempt_body_def io_defs scripted_def)
  have other: "attempt_body scripted 7 ''unpin'' (Some 1)
      ([GivesTab ?t, GivesTabs ?ps, GivesUnit, Throws ''No tab with id: 7.''], []) =
      (Inl ''No tab with id: 7.'',
       ([], [TabsGet 7, TabsQueryPinned 1, TabsUpdate 7 False, TabsMove 7 2]))"
    by (simp add: attempt_body_def io_defs scripted_def)
  have a: "executeWithRetry scripted 7 ''unpin'' (Some 1) 15
      ([GivesTab ?t, GivesTabs ?ps, GivesUnit, Throws drag_lock_message, GivesTab ?u], []) =
     (True, ([], [TabsGet 7, TabsQueryPinned 1, TabsUpdate 7 False, TabsMove 7 2, Sleep 100,
                  TabsGet 7]))"
    unfolding executeWithRetry_def
    using loop_retries[OF _ first drag_lock_message_includes, of 0 15]
      loop_returns[OF _ second, of 1 15]
    by (simp add: sleep_def backoff_delay_def scripted_elapse)
  have b: "executeWithRetry scripted 7 ''unpin'' (Some 1) 15
      ([GivesTab ?t, GivesTabs ?ps, GivesUnit, Throws ''No tab with id: 7.''], []) =
     (False, ([], [TabsGet 7, TabsQueryPinned 1, TabsUpdate 7 False, TabsMove 7 2]))"
    unfolding executeWithRetry_def
    using loop_aborts[OF _ other, of 0 15] by (simp add: drag_lock_message_def)
  have m: "tabs_move scripted 7 2 [Throws drag_lock_message, GivesTab ?u] =
      (Inl drag_lock_message, [GivesTab ?u])"
    by (simp add: scripted_def)
  from m a b show ?thesis by simp
qed

text \<open>
  C4 (as amended). A pin attempt, at any turn of the retry loop, on a tab that is not
  pinned, in which the calls the attempt makes return without error: the worker sets
  pinned to true and then moves the tab to \<open>min targetIndex (pinnedCount_after - 1)\<close>,
  where the pinned count (\<open>length ps\<close>) is read after the pinning; with no target
  index the destination is 0 and the count is not read. It then flashes the pushpin
  badge on green and returns success. At the first turn this is the whole of
  \<^verbatim>\<open>executeWithRetry\<close>.
\<close>

theorem executeWithRetry_pin:
  assumes "attempt < maxRetries"
      and "tabs_get H tabId hA = (Inr tab, hB)" and "\<not> pinned tab"
      and "tabs_update H tabId True hB = (Inr (), hC)"
      and "case targetIndex of
             Some t \<Rightarrow> tabs_query_pinned H (windowId tab) hC = (Inr ps, hD)
           | None \<Rightarrow> hD = hC"
      and "dest = (case targetIndex of Some t \<Rightarrow> min t (int (length ps) - 1) | None \<Rightarrow> 0)"
      and "tabs_move H tabId dest hD = (Inr (), hE)"
      and "setBadgeText H Pushpin hE = (Inr (), hF)"
      and "setBadgeBackgroundColor H ''#4CAF50'' hF = (Inr (), hG)"
  shows "executeWithRetry_from H tabId ''pin'' targetIndex maxRetries attempt (hA, tr) =
           (True, (hG, tr @ [TabsGet tabId, TabsUpdate tabId True]
                     @ (case targetIndex of
                          Some t \<Rightarrow> [TabsQueryPinned (windowId tab)]
                        | None \<Rightarrow> [])
                     @ [TabsMove tabId dest, SetBadgeText Pushpin,
                        SetBadgeBackgroundColor ''#4CAF50'', SetTimeoutClearBadge 1500]))
       \<and> (attempt = 0 \<longrightarrow>
            executeWithRetry H tabId ''pin'' targetIndex maxRetries (hA, tr) =
              executeWithRetry_from H tabId ''pin'' targetIndex maxRetries attempt (hA, tr))"
proof -
  have "attempt_body H tabId ''pin'' targetIndex (hA, tr) =
           (Inr True, (hG, tr @ [TabsGet tabId, TabsUpdate tabId True]
                     @ (case targetIndex of
                          Some t \<Rightarrow> [TabsQueryPinned (windowId tab)]
                        | None \<Rightarrow> [])
                     @ [TabsMove tabId dest, SetBadgeText Pushpin,
                        SetBadgeBackgroundColor ''#4CAF50'', SetTimeoutClearBadge 1500]))"
    using assms(2-) by (cases targetIndex) (simp_all add: attempt_body_def io_defs)
  then show ?thesis using assms(1) by (simp add: executeWithRetry_def loop_returns)
qed

text \<open>
  One tab is pinned and the tab was dropped at index 5. The first attempt's update
  throws the drag-lock error; the second attempt, after a wait of 100, goes through:
  two tabs are then pinned and the tab is moved to index 1. With no target index the
  tab is pinned at the first attempt and moved to index 0.
\<close>

theorem executeWithRetry_pin_witness:
  "executeWithRetry scripted 7 ''pin'' (Some 5) 15
     ([GivesTab \<lparr>tab_id = 7, windowId = 1, index = 5, pinned = False\<rparr>,
       Throws drag_lock_message,
       GivesTab \<lparr>tab_id = 7, windowId = 1, index = 5, pinned = False\<rparr>,
       GivesUnit,
       GivesTabs [\<lparr>tab_id = 5, windowId = 1, index = 0, pinned = True\<rparr>,
                  \<lparr>tab_id = 7, windowId = 1, index = 1, pinned = True\<rparr>],
       GivesUnit, GivesUnit, GivesUnit], []) =
     (True, ([], [TabsGet 7, TabsUpdate 7 True, Sleep 100,
                  TabsGet 7, TabsUpdate 7 True, TabsQueryPinned 1, TabsMove 7 1,
                  SetBadgeText Pushpin, SetBadgeBackgroundColor ''#4CAF50'',
                  SetTimeoutClearBadge 1500]))
   \<and> executeWithRetry scripted 7 ''pin'' None 15
     ([GivesTab \<lparr>tab_id = 7, windowId = 1, index = 5, pinned = False\<rparr>,
       GivesUnit, GivesUnit, GivesUnit, GivesUnit], []) =
     (True, ([], [TabsGet 7, TabsUpdate 7 True, TabsMove 7 0,
                  SetBadgeText Pushpin, SetBadgeBackgroundColor ''#4CAF50'',
                  SetTimeoutClearBadge 1500]))"
proof -
  let ?u = "\<lparr>tab_id = 7, windowId = 1, index = 5, pinned = False\<rparr>"
  let ?ps = "[\<lparr>tab_id = 5, windowId = 1, index = 0, pinned = True\<rparr>,
              \<lparr>tab_id = 7, windowId = 1, index = 1, pinned = True\<rparr>]"
  let ?clean = "[GivesTab ?u, GivesUnit, GivesTabs ?ps, GivesUnit, GivesUnit, GivesUnit]"
  have first: "attempt_body scripted 7 ''pin'' (Some 5)
      (GivesTab ?u # Throws drag_lock_message # ?clean, []) =
      (Inl drag_lock_message, (?clean, [TabsGet 7, TabsUpdate 7 True]))"
    by (simp add: attempt_body_def io_defs scripted_def)
  have retried: "executeWithRetry scripted 7 ''pin'' (Some 5) 15
      (GivesTab ?u # Throws drag_lock_message # ?clean, []) =
    executeWithRetry_from scripted 7 ''pin'' (Some 5) 15 1
      (?clean, [TabsGet 7, TabsUpdate 7 True, Sleep 100])"
    unfolding executeWithRetry_def
    using loop_retries[OF _ first drag_lock_message_includes, of 0 15]
    by (simp add: sleep_def backoff_delay_def scripted_elapse)
  have second: "executeWithRetry_from scripted 7 ''pin'' (Some 5) 15 1
      (?clean, [TabsGet 7, TabsUpdate 7 True, Sleep 100]) =
     (True, ([], [TabsGet 7, TabsUpdate 7 True, Sleep 100,
                  TabsGet 7, TabsUpdate 7 True, TabsQueryPinned 1, TabsMove 7 1,
                  SetBadgeText Pushpin, SetBadgeBackgroundColor ''#4CAF50'',
                  SetTimeoutClearBadge 1500]))"
    using executeWithRetry_pin [where attempt = 1 and maxRetries = 15 and H = scripted
      and tabId = 7 and targetIndex = "Some 5" and dest = 1
      and tr = "[TabsGet 7, TabsUpdate 7 True, Sleep 100]"
      and tab = ?u and ps = ?ps and hA = ?clean
      and hB = "[GivesUnit, GivesTabs ?ps, GivesUnit, GivesUnit, GivesUnit]"
      and hC = "[GivesTabs ?ps, GivesUnit, GivesUnit, GivesUnit]"
      and hD = "[GivesUnit, GivesUnit, GivesUnit]" and hE = "[GivesUnit, GivesUnit]"
      and hF = "[GivesUnit]" and hG = "[]"]
    by (simp add: scripted_def)
  have plain: "executeWithRetry scripted 7 ''pin'' None 15
     ([GivesTab ?u, GivesUnit, GivesUnit, GivesUnit, GivesUnit], []) =
     (True, ([], [TabsGet 7, TabsUpdate 7 True, TabsMove 7 0,
                  SetBadgeText Pushpin, SetBadgeBackgroundColor ''#4CAF50'',
                  SetTimeoutClearBadge 1500]))"
    using executeWithRetry_pin [where attempt = 0 and maxRetries = 15 and H = scripted
      and tabId = 7 and targetIndex = None and tr = "[]" and dest = 0
      and tab = ?u and ps = "[]"
      and hA = "[GivesTab ?u, GivesUnit, GivesUnit, GivesUnit, GivesUnit]"
      and hB = "[GivesUnit, GivesUnit, GivesUnit, GivesUnit]"
      and hC = "[GivesUnit, GivesUnit, GivesUnit]"
      and hD = "[GivesUnit, GivesUnit, GivesUnit]" and hE = "[GivesUnit, GivesUnit]"
      and hF = "[GivesUnit]" and hG = "[]"]
    by (simp add: scripted_def)
  from retried second plain show ?thesis by simp
qed

text \<open>
  The claim as it was stated (every pin execution on an unpinned tab moves the tab,
  gives the feedback and returns success) fails when a call of the attempt throws. Here
  the update goes through and the move throws the drag-lock error: after the wait the
  tab is found pinned and the executor returns success, with no move done and no badge.
  When the move throws another error, the executor returns failure.
\<close>

theorem executeWithRetry_pin_counterexample:
  "tabs_move scripted 7 1
      [Throws drag_lock_message,
       GivesTab \<lparr>tab_id = 7, windowId = 1, index = 1, pinned = True\<rparr>] =
     (Inl drag_lock_message, [GivesTab \<lparr>tab_id = 7, windowId = 1, index = 1, pinned = True\<rparr>])
   \<and> executeWithRetry scripted 7 ''pin'' (Some 5) 15
     ([GivesTab \<lparr>tab_id = 7, windowId = 1, index = 5, pinned = False\<rparr>,
       GivesUnit,
       GivesTabs [\<lparr>tab_id = 5, windowId = 1, index = 0, pinned = True\<rparr>,
                  \<lparr>tab_id = 7, windowId = 1, index = 1, pinned = True\<rparr>],
       Throws drag_lock_message,
       GivesTab \<lparr>tab_id = 7, windowId = 1, index = 1, pinned = True\<rparr>], []) =
     (True, ([], [TabsGet 7, TabsUpdate 7 True, TabsQueryPinned 1, TabsMove 7 1, Sleep 100,
                  TabsGet 7]))
   \<and> executeWithRetry scripted 7 ''pin'' (Some 5) 15
     ([GivesTab \<lparr>tab_id = 7, windowId = 1, index = 5, pinned = False\<rparr>,
       GivesUnit,
       GivesTabs [\<lparr>tab_id = 5, windowId = 1, index = 0, pinned = True\<rparr>,
                  \<lparr>tab_id = 7, windowId = 1, index = 1, pinned = True\<rparr>],
       Throws ''No tab with id: 7.''], []) =
     (False, ([], [TabsGet 7, TabsUpdate 7 True, TabsQueryPinned 1, TabsMove 7 1]))"
proof -
  let ?u = "\<lparr>tab_id = 7, windowId = 1, index = 5, pinned = False\<rparr>"
  let ?p = "\<lparr>tab_id = 7, windowId = 1, index = 1, pinned = True\<rparr>"
  let ?ps = "[\<lparr>tab_id = 5, windowId = 1, index = 0, pinned = True\<rparr>, ?p]"
  have first: "attempt_body scripted 7 ''pin'' (Some 5)
      ([GivesTab ?u, GivesUnit, GivesTabs ?ps, Throws drag_lock_message, GivesTab ?p], []) =
      (Inl drag_lock_message,
       ([GivesTab ?p], [TabsGet 7, TabsUpdate 7 True, TabsQueryPinned 1, TabsMove 7 1]))"
    by (simp add: attempt_body_def io_defs scripted_def)
  have second: "attempt_body scripted 7 ''pin'' (Some 5)
      ([GivesTab ?p], [TabsGet 7, TabsUpdate 7 True, TabsQueryPinned 1, TabsMove 7 1, Sleep 100]) =
      (Inr True, ([], [TabsGet 7, TabsUpdate 7 True, TabsQueryPinned 1, TabsMove 7 1, Sleep 100,
                       TabsGet 7]))"
    by (simp add: attempt_body_def io_defs scripted_def)
  have other: "attempt_body scripted 7 ''pin'' (Some 5)
      ([GivesTab ?u, GivesUnit, GivesTabs ?ps, Throws ''No tab with id: 7.''], []) =
      (Inl ''No tab with id: 7.'',
       ([], [TabsGet 7, TabsUpdate 7 True, TabsQueryPinned 1, TabsMove 7 1]))"
    by (simp add: attempt_body_def io_defs scripted_def)
  have a: "executeWithRetry scripted 7 ''pin'' (Some 5) 15
      ([GivesTab ?u, GivesUnit, GivesTabs ?ps, Throws drag_lock_message, GivesTab ?p], []) =
     (True, ([], [TabsGet 7, TabsUpdate 7 True, TabsQueryPinned 1, TabsMove 7 1, Sleep 100,
                  TabsGet 7]))"
    unfolding executeWithRetry_def
    using loop_retries[OF _ first drag_lock_message_includes, of 0 15]
      loop_returns[OF _ second, of 1 15]
    by (simp add: sleep_def backoff_delay_def scripted_elapse)
  have b: "executeWithRetry scripted 7 ''pin'' (Some 5) 15
      ([GivesTab ?u, GivesUnit, GivesTabs ?ps, Throws ''No tab with id: 7.''], []) =
     (False, ([], [TabsGet 7, TabsUpdate 7 True, TabsQueryPinned 1, TabsMove 7 1]))"
    unfolding executeWithRetry_def
    using loop_aborts[OF _ other, of 0 15] by (simp add: drag_lock_message_def)
  have m: "tabs_move scripted 7 1 [Throws drag_lock_message, GivesTab ?p] =
      (Inl drag_lock_message, [GivesTab ?p])"
    by (simp add: scripted_def)
  from m a b show ?thesis by simp
qed

text \<open>
  C5. If every attempt the executor makes throws the drag-lock error, it terminates and
  returns failure after exactly \<open>maxRetries\<close> attempts (each attempt fetches the tab
  once), having waited \<open>maxRetries\<close> times, the \<open>i\<close>-th wait being
  \<open>min (100 * 1.5 ^ i) 2000\<close>, so that the waits add up to the sum of these for
  \<open>i\<close> from 0 to \<open>maxRetries - 1\<close>. "Every attempt made throws it" is said with a
  family \<open>I\<close> of browser states, one set for each attempt: the run starts in \<open>I 0\<close>,
  and attempt \<open>a\<close> (for \<open>a < maxRetries\<close>) from a state of \<open>I a\<close> throws the
  error and leaves, after the wait that follows it, a state of \<open>I (a + 1)\<close>. Nothing
  is asked of the browser after the last wait.
\<close>

theorem executeWithRetry_exhausted:
  assumes "I 0 hA"
      and "\<And>a h t. a < maxRetries \<Longrightarrow> I a h \<Longrightarrow>
            \<exists>msg h' t'. attempt_body H tabId action targetIndex (h, t) = (Inl msg, (h', t'))
              \<and> includes_str msg ''user may be dragging''
              \<and> I (Suc a) (elapse H (min (100 * (3 / 2) ^ a) 2000) h')"
  shows "\<exists>h' ext. executeWithRetry H tabId action targetIndex maxRetries (hA, tr) =
                     (False, (h', tr @ ext))
           \<and> fetches tabId ext = maxRetries
           \<and> length (sleeps ext) = maxRetries
           \<and> (\<forall>i < maxRetries. sleeps ext ! i = min (100 * (3 / 2) ^ i) 2000)
           \<and> sum_list (sleeps ext) = (\<Sum>i = 0..<maxRetries. min (100 * (3 / 2) ^ i) 2000)"
proof -
  have step: "\<exists>msg h' t'. attempt_body H tabId action targetIndex (h, t) = (Inl msg, (h', t'))
              \<and> includes_str msg ''user may be dragging''
              \<and> I (Suc a) (elapse H (backoff_delay a) h')"
    if "a < maxRetries" "I a h" for a h t
    using assms(2)[OF that] by (simp add: backoff_delay_def)
  from exhaust_from[of maxRetries I H tabId action targetIndex 0 hA tr, OF step assms(1)]
  obtain h' ext where
    r: "executeWithRetry_from H tabId action targetIndex maxRetries 0 (hA, tr) =
          (False, (h', tr @ ext))"
    and s: "sleeps ext = map backoff_delay [0..<maxRetries]"
    and f: "fetches tabId ext = maxRetries"
    by auto
  have "sum_list (sleeps ext) = (\<Sum>i = 0..<maxRetries. backoff_delay i)"
    unfolding s by (simp add: interv_sum_list_conv_sum_set_nat)
  with r s f show ?thesis
    by (auto simp: executeWithRetry_def backoff_delay_def)
qed

text \<open>
  The user holds the tab for 20 seconds and the default 15 retries run out before that:
  15 fetches, 15 waits, the first of 100 and the last of 2000, 18925.78125 in all. An
  update at time 20000 would have gone through.
\<close>

theorem executeWithRetry_exhausted_witness:
  "(\<exists>h' ext. executeWithRetry (dragging_until 20000 tab7) 7 ''pin'' None 15 (0, []) =
             (False, (h', ext))
           \<and> fetches 7 ext = 15
           \<and> length (sleeps ext) = 15
           \<and> sleeps ext ! 0 = 100 \<and> sleeps ext ! 14 = 2000
           \<and> sum_list (sleeps ext) = 605625 / 32)
   \<and> tabs_update (dragging_until 20000 tab7) 7 True 20000 = (Inr (), 20000)"
proof -
  let ?I = "\<lambda>a h. h = (\<Sum>i = 0..<a. min (100 * (3 / 2) ^ i) (2000::rat))"
  have total: "(\<Sum>i = 0..<15. min (100 * (3 / 2) ^ i) (2000::rat)) = 605625 / 32"
    by (simp add: sum.atLeast0_lessThan_Suc eval_nat_numeral)
  have held: "(\<Sum>i = 0..<a. min (100 * (3 / 2) ^ i) (2000::rat)) < 20000" if "a < 15" for a
  proof -
    have "(\<Sum>i = 0..<a. min (100 * (3 / 2) ^ i) (2000::rat))
          \<le> (\<Sum>i = 0..<15. min (100 * (3 / 2) ^ i) (2000::rat))"
      using that by (intro sum_mono2) auto
    with total show ?thesis by simp
  qed
  have attempt: "attempt_body (dragging_until 20000 tab7) 7 ''pin'' None (h, t) =
      (Inl drag_lock_message, (h, t @ [TabsGet 7, TabsUpdate 7 True]))" if "h < 20000" for h t
    using that
    by (simp add: attempt_body_def dragging_until_def tab7_def await_def issue_def
        chrome_tabs_get_def chrome_tabs_update_def)
  have el: "elapse (dragging_until 20000 tab7) d h = h + d" for d h
    by (simp add: dragging_until_def)
  have step: "\<exists>msg h' t'.
      attempt_body (dragging_until 20000 tab7) 7 ''pin'' None (h, t) = (Inl msg, (h', t'))
      \<and> includes_str msg ''user may be dragging''
      \<and> ?I (Suc a) (elapse (dragging_until 20000 tab7) (min (100 * (3 / 2) ^ a) 2000) h')"
    if "a < 15" "?I a h" for a h t
    using that held[OF that(1)] attempt[of h t]
    by (simp add: el drag_lock_message_includes)
  have start: "?I 0 0" by simp
  from executeWithRetry_exhausted[where I = ?I and hA = 0 and H = "dragging_until 20000 tab7"
      and tabId = 7 and action = "''pin''" and targetIndex = None and maxRetries = 15
      and tr = "[]", OF start step]
  obtain h' ext where r:
    "executeWithRetry (dragging_until 20000 tab7) 7 ''pin'' None 15 (0, []) = (False, (h', ext))"
    "fetches 7 ext = 15" "length (sleeps ext) = 15"
    "\<forall>i < 15. sleeps ext ! i = min (100 * (3 / 2) ^ i) 2000"
    "sum_list (sleeps ext) = (\<Sum>i = 0..<15. min (100 * (3 / 2) ^ i) 2000)"
    by auto
  from r(4) have ends: "sleeps ext ! 0 = 100" "sleeps ext ! 14 = 2000"
    by (simp_all add: eval_nat_numeral)
  have later: "tabs_update (dragging_until 20000 tab7) 7 True 20000 = (Inr (), 20000)"
    by (simp add: dragging_until_def)
  from r ends total later show ?thesis by auto
qed

text \<open>
  C6 (as amended). An attempt throws a browser error. If the error's message says the
  user may be dragging, the executor waits \<open>min (100 * 1.5 ^ attempt) 2000\<close>; then, if
  fewer than \<open>maxRetries\<close> attempts have been made, another attempt follows (the tab is
  fetched again), and otherwise the executor returns failure with nothing after the
  wait. On any other error the executor returns failure at once: no wait, no further
  call, the world as the failed call left it.
\<close>

theorem executeWithRetry_catch:
  assumes "attempt < maxRetries"
      and "attempt_body H tabId action targetIndex w = (Inl msg, w')"
  shows "(includes_str msg ''user may be dragging'' \<and> Suc attempt < maxRetries \<longrightarrow>
           (\<exists>r h ext. executeWithRetry_from H tabId action targetIndex maxRetries attempt w =
              (r, (h, snd w' @ [Sleep (min (100 * (3 / 2) ^ attempt) 2000), TabsGet tabId] @ ext))))
       \<and> (includes_str msg ''user may be dragging'' \<and> \<not> Suc attempt < maxRetries \<longrightarrow>
           executeWithRetry_from H tabId action targetIndex maxRetries attempt w =
             (False, (elapse H (min (100 * (3 / 2) ^ attempt) 2000) (fst w'),
                      snd w' @ [Sleep (min (100 * (3 / 2) ^ attempt) 2000)])))
       \<and> (\<not> includes_str msg ''user may be dragging'' \<longrightarrow>
           executeWithRetry_from H tabId action targetIndex maxRetries attempt w = (False, w'))"
proof (intro conjI impI)
  assume "\<not> includes_str msg ''user may be dragging''"
  with assms show "executeWithRetry_from H tabId action targetIndex maxRetries attempt w = (False, w')"
    by (rule loop_aborts)
next
  assume a: "includes_str msg ''user may be dragging'' \<and> \<not> Suc attempt < maxRetries"
  then have "executeWithRetry_from H tabId action targetIndex maxRetries attempt w =
      executeWithRetry_from H tabId action targetIndex maxRetries (Suc attempt)
        (sleep H (backoff_delay attempt) w')"
    using assms by (intro loop_retries) auto
  with a show "executeWithRetry_from H tabId action targetIndex maxRetries attempt w =
             (False, (elapse H (min (100 * (3 / 2) ^ attempt) 2000) (fst w'),
                      snd w' @ [Sleep (min (100 * (3 / 2) ^ attempt) 2000)]))"
    by (simp add: loop_done sleep_def backoff_delay_def)
next
  assume a: "includes_str msg ''user may be dragging'' \<and> Suc attempt < maxRetries"
  then have eq: "executeWithRetry_from H tabId action targetIndex maxRetries attempt w =
      executeWithRetry_from H tabId action targetIndex maxRetries (Suc attempt)
        (sleep H (backoff_delay attempt) w')"
    using assms by (intro loop_retries) auto
  from a loop_fetches_first[of "Suc attempt" maxRetries H tabId action targetIndex
      "sleep H (backoff_delay attempt) w'"]
  obtain ext where "snd (snd (executeWithRetry_from H tabId action targetIndex maxRetries
      (Suc attempt) (sleep H (backoff_delay attempt) w'))) =
      snd (sleep H (backoff_delay attempt) w') @ TabsGet tabId # ext" by blast
  with eq have "snd (snd (executeWithRetry_from H tabId action targetIndex maxRetries attempt w)) =
      snd w' @ [Sleep (min (100 * (3 / 2) ^ attempt) 2000), TabsGet tabId] @ ext"
    by (simp add: sleep_def backoff_delay_def)
  then show "\<exists>r h ext. executeWithRetry_from H tabId action targetIndex maxRetries attempt w =
      (r, (h, snd w' @ [Sleep (min (100 * (3 / 2) ^ attempt) 2000), TabsGet tabId] @ ext))"
    by (metis prod.collapse)
qed

text \<open>
  With two retries allowed and the user never letting go: the first attempt's error is
  followed by a wait of 100 and a second fetch; the same error in the second, last
  attempt is followed by a wait of 150 and failure. When the update throws a permission
  error instead, the executor fails at once.
\<close>

theorem executeWithRetry_catch_witness:
  "(\<exists>r h ext. executeWithRetry_from (dragging tab7) 7 ''pin'' None 2 0 ((), []) =
      (r, (h, [TabsGet 7, TabsUpdate 7 True] @ [Sleep 100, TabsGet 7] @ ext)))
   \<and> executeWithRetry_from (dragging tab7) 7 ''pin'' None 2 1
        ((), [TabsGet 7, TabsUpdate 7 True, Sleep 100]) =
      (False, ((), [TabsGet 7, TabsUpdate 7 True, Sleep 100, TabsGet 7, TabsUpdate 7 True, Sleep 150]))
   \<and> executeWithRetry_from scripted 7 ''pin'' None 2 0
        ([GivesTab tab7, Throws ''No permission''], []) =
      (False, ([], [TabsGet 7, TabsUpdate 7 True]))"
proof -
  have attempt: "attempt_body (dragging tab7) 7 ''pin'' None (h, tr) =
      (Inl drag_lock_message, (h, tr @ [TabsGet 7, TabsUpdate 7 True]))" for h tr
    by (simp add: attempt_body_def dragging_def tab7_def await_def issue_def
        chrome_tabs_get_def chrome_tabs_update_def)
  have other: "attempt_body scripted 7 ''pin'' None ([GivesTab tab7, Throws ''No permission''], []) =
      (Inl ''No permission'', ([], [TabsGet 7, TabsUpdate 7 True]))"
    by (simp add: attempt_body_def scripted_def tab7_def await_def issue_def
        chrome_tabs_get_def chrome_tabs_update_def)
  have el: "elapse (dragging tab7) d h = h" for d h
    by (simp add: dragging_def)
  show ?thesis
    using executeWithRetry_catch[OF _ attempt, of 0 2 "()" "[]"]
      executeWithRetry_catch[OF _ attempt, of 1 2 "()" "[TabsGet 7, TabsUpdate 7 True, Sleep 100]"]
      executeWithRetry_catch[OF _ other, of 0 2]
    by (simp add: drag_lock_message_includes el)
qed

text \<open>
  The claim as it was stated (a drag-lock error is always followed by a backoff and
  another attempt) fails at the last attempt. With \<open>maxRetries = 2\<close> the second attempt
  throws the drag-lock error; the wait of 150 follows, no third attempt does, and the
  executor returns failure.
\<close>

theorem executeWithRetry_last_attempt_counterexample:
  "attempt_body (dragging tab7) 7 ''pin'' None ((), [TabsGet 7, TabsUpdate 7 True, Sleep 100]) =
     (Inl drag_lock_message,
      ((), [TabsGet 7, TabsUpdate 7 True, Sleep 100, TabsGet 7, TabsUpdate 7 True]))
   \<and> includes_str drag_lock_message ''user may be dragging''
   \<and> executeWithRetry (dragging tab7) 7 ''pin'' None 2 ((), []) =
     (False, ((), [TabsGet 7, TabsUpdate 7 True, Sleep 100, TabsGet 7, TabsUpdate 7 True, Sleep 150]))"
proof -
  have attempt: "attempt_body (dragging tab7) 7 ''pin'' None (h, tr) =
      (Inl drag_lock_message, (h, tr @ [TabsGet 7, TabsUpdate 7 True]))" for h tr
    by (simp add: attempt_body_def dragging_def tab7_def await_def issue_def
        chrome_tabs_get_def chrome_tabs_update_def)
  have el: "elapse (dragging tab7) d h = h" for d h
    by (simp add: dragging_def)
  have "executeWithRetry (dragging tab7) 7 ''pin'' None 2 ((), []) =
     (False, ((), [TabsGet 7, TabsUpdate 7 True, Sleep 100, TabsGet 7, TabsUpdate 7 True, Sleep 150]))"
    unfolding executeWithRetry_def
    by (simp add: loop_retries[OF _ attempt drag_lock_message_includes] loop_done
        sleep_def el backoff_delay_def)
  with attempt drag_lock_message_includes show ?thesis by simp
qed

text \<open>
  C7. When the tab is already in the state the action asks for (pin on a pinned tab,
  unpin on an unpinned one), the executor returns success on its first attempt and the
  one call it has made is the fetch of the tab: no update, no move, no badge.
\<close>

theorem executeWithRetry_already_in_state:
  assumes "0 < maxRetries"
      and "tabs_get H tabId h = (Inr tab, h')"
      and "action = ''pin'' \<and> pinned tab \<or> action = ''unpin'' \<and> \<not> pinned tab"
  shows "executeWithRetry H tabId action targetIndex maxRetries (h, tr) =
           (True, (h', tr @ [TabsGet tabId]))"
proof -
  have "attempt_body H tabId action targetIndex (h, tr) = (Inr True, (h', tr @ [TabsGet tabId]))"
    using assms(2,3) by (auto simp: attempt_body_def io_defs)
  then show ?thesis using assms(1) by (simp add: executeWithRetry_def loop_returns)
qed

theorem executeWithRetry_already_in_state_witness:
  "executeWithRetry scripted 7 ''pin'' (Some 2) 15
     ([GivesTab \<lparr>tab_id = 7, windowId = 1, index = 2, pinned = True\<rparr>], []) =
     (True, ([], [TabsGet 7]))
   \<and> executeWithRetry scripted 7 ''unpin'' (Some 2) 15
     ([GivesTab \<lparr>tab_id = 7, windowId = 1, index = 2, pinned = False\<rparr>], []) =
     (True, ([], [TabsGet 7]))"
  using
    executeWithRetry_already_in_state [where maxRetries = 15 and H = scripted and tabId = 7
      and h = "[GivesTab \<lparr>tab_id = 7, windowId = 1, index = 2, pinned = True\<rparr>]"
      and tab = "\<lparr>tab_id = 7, windowId = 1, index = 2, pinned = True\<rparr>"
      and h' = "[]" and action = "''pin''" and targetIndex = "Some 2" and tr = "[]"]
    executeWithRetry_already_in_state [where maxRetries = 15 and H = scripted and tabId = 7
      and h = "[GivesTab \<lparr>tab_id = 7, windowId = 1, index = 2, pinned = False\<rparr>]"
      and tab = "\<lparr>tab_id = 7, windowId = 1, index = 2, pinned = False\<rparr>"
      and h' = "[]" and action = "''unpin''" and targetIndex = "Some 2" and tr = "[]"]
  by (simp add: scripted_def)

section \<open>The drag debouncer\<close>



text \<open>
  C9. A removal notification for the tab \<open>T\<close> arrives at time \<open>t\<close>, before the tab's
  pending timer (if it has one) is due: the entry and the timer are gone, and no pass is
  ever made for \<open>T\<close> afterwards, whatever notifications follow that are not moves of
  \<open>T\<close> and however long the worker runs. For a tab with no entry the removal listener
  changes nothing.
\<close>

theorem removal_cancels:
  assumes "wf s"
      and "\<forall>tm \<in> set (timers_of T s). t < due tm"
      and "\<forall>e \<in> set evs. \<not> is_move_of T (snd e)"
  shows "(let s' = deliver H (t, Removed T) s
          in dragDebounce s' T = None \<and> timers_of T s' = []
           \<and> passes_of T s' = passes_of T s
           \<and> passes_of T (run_until H t' (run H evs s')) = passes_of T s)
       \<and> (dragDebounce s T = None \<longrightarrow> onRemoved T s = s)"
proof -
  let ?s0 = "run_until H t s"
  let ?s' = "deliver H (t, Removed T) s"
  have w0: "wf ?s0" by (rule wf_run_until[OF assms(1)])
  have p0: "passes_of T ?s0 = passes_of T s"
    by (rule run_until_not_due(2)[OF assms(1,2)])
  have w': "wf ?s'" by (rule wf_deliver[OF assms(1)])
  have e': "dragDebounce ?s' T = None" and t': "timers_of T ?s' = []"
    and p': "passes_of T ?s' = passes_of T s"
    using p0 by (simp_all add: onRemoved_view[OF w0])
  from untracked_stays[OF w' t' assms(3)]
  have w'': "wf (run H evs ?s')" and t'': "timers_of T (run H evs ?s') = []"
    and p'': "passes_of T (run H evs ?s') = passes_of T s"
    using p' by simp_all
  have "passes_of T (run_until H t' (run H evs ?s')) = passes_of T s"
    using run_until_not_due(2)[OF w'', of T t' H] t'' p'' by simp
  moreover have "dragDebounce s T = None \<longrightarrow> onRemoved T s = s"
    by (simp add: onRemoved_def)
  ultimately show ?thesis using e' t' p' by (simp add: Let_def)
qed

text \<open>
  Tab 7 is moved at time 0, so that its timer is due at 600, and removed at time 300.
  Tab 8 is moved at 400. By time 5000 tab 8 has had its pass and tab 7 none. Removing
  tab 9, which has no entry, changes nothing.
\<close>

theorem removal_cancels_witness:
  "map due (timers_of 7 (deliver scripted (0, Moved 7 0 1) (initial ([], [])))) = [600]
   \<and> dragDebounce (deliver scripted (300, Removed 7)
        (deliver scripted (0, Moved 7 0 1) (initial ([], [])))) 7 = None
   \<and> timers_of 7 (deliver scripted (300, Removed 7)
        (deliver scripted (0, Moved 7 0 1) (initial ([], [])))) = []
   \<and> passes_of 7 (run_until scripted 5000 (run scripted [(400, Moved 8 0 1)]
        (deliver scripted (300, Removed 7)
          (deliver scripted (0, Moved 7 0 1) (initial ([], [])))))) = []
   \<and> map pass_time (passes_of 8 (run_until scripted 5000 (run scripted [(400, Moved 8 0 1)]
        (deliver scripted (300, Removed 7)
          (deliver scripted (0, Moved 7 0 1) (initial ([], []))))))) = [1000]
   \<and> onRemoved 9 (deliver scripted (0, Moved 7 0 1) (initial ([], []))) =
       deliver scripted (0, Moved 7 0 1) (initial ([], []))"
proof -
  let ?i = "initial ([], []) :: reply list runtime"
  have s: "deliver scripted (0, Moved 7 0 1) ?i =
      \<lparr>clock = 0, nextTimerId = 2, pendingTimers = [\<lparr>timer_id = 1, due = 600, for_tab = 7\<rparr>],
       dragDebounce = [7 \<mapsto> 1], world = ([], []), passes = []\<rparr>"
    by (simp add: initial_def runtime_defs)
  have s1: "deliver scripted (300, Removed 7) (deliver scripted (0, Moved 7 0 1) ?i) =
      \<lparr>clock = 300, nextTimerId = 2, pendingTimers = [],
       dragDebounce = [7 \<mapsto> 1](7 := None), world = ([], []), passes = []\<rparr>"
    unfolding s by (simp add: runtime_defs)
  have s2: "deliver scripted (400, Moved 8 0 1)
        (deliver scripted (300, Removed 7) (deliver scripted (0, Moved 7 0 1) ?i)) =
      \<lparr>clock = 400, nextTimerId = 3, pendingTimers = [\<lparr>timer_id = 2, due = 1000, for_tab = 8\<rparr>],
       dragDebounce = ([7 \<mapsto> 1](7 := None))(8 \<mapsto> 2), world = ([], []), passes = []\<rparr>"
    unfolding s1 by (simp add: runtime_defs)
  have s3: "map pass_time (passes (run_until scripted 5000 (deliver scripted (400, Moved 8 0 1)
        (deliver scripted (300, Removed 7) (deliver scripted (0, Moved 7 0 1) ?i))))) = [1000]
     \<and> map pass_tab (passes (run_until scripted 5000 (deliver scripted (400, Moved 8 0 1)
        (deliver scripted (300, Removed 7) (deliver scripted (0, Moved 7 0 1) ?i))))) = [8]"
    unfolding s2 by (simp add: runtime_defs Let_def)
  have eight: "map pass_time (passes_of 8 (run_until scripted 5000
        (run scripted [(400, Moved 8 0 1)]
          (deliver scripted (300, Removed 7) (deliver scripted (0, Moved 7 0 1) ?i))))) = [1000]"
  proof -
    let ?P = "passes (run_until scripted 5000 (deliver scripted (400, Moved 8 0 1)
        (deliver scripted (300, Removed 7) (deliver scripted (0, Moved 7 0 1) ?i))))"
    from s3 obtain p where p: "?P = [p]" "pass_time p = 1000" "pass_tab p = 8"
      by (cases ?P) auto
    then show ?thesis by (simp add: run_def passes_of_def del: deliver.simps)
  qed
  have w: "wf (deliver scripted (0, Moved 7 0 1) ?i)"
    by (rule wf_deliver[OF wf_initial])
  have pending: "map due (timers_of 7 (deliver scripted (0, Moved 7 0 1) ?i)) = [600]"
    unfolding s by (simp add: timers_of_def)
  have not_due: "\<forall>tm \<in> set (timers_of 7 (deliver scripted (0, Moved 7 0 1) ?i)). 300 < due tm"
    unfolding s by (simp add: timers_of_def)
  have others: "\<forall>e \<in> set [(400::nat, Moved 8 0 1)]. \<not> is_move_of 7 (snd e)"
    by simp
  have none: "passes_of 7 (deliver scripted (0, Moved 7 0 1) ?i) = []"
    unfolding s by (simp add: passes_of_def)
  have nine: "onRemoved 9 (deliver scripted (0, Moved 7 0 1) ?i) =
      deliver scripted (0, Moved 7 0 1) ?i"
    unfolding s by (simp add: onRemoved_def)
  from removal_cancels[OF w not_due others, of scripted 5000] none
  have "dragDebounce (deliver scripted (300, Removed 7) (deliver scripted (0, Moved 7 0 1) ?i)) 7 = None
      \<and> timers_of 7 (deliver scripted (300, Removed 7) (deliver scripted (0, Moved 7 0 1) ?i)) = []
      \<and> passes_of 7 (run_until scripted 5000 (run scripted [(400, Moved 8 0 1)]
          (deliver scripted (300, Removed 7) (deliver scripted (0, Moved 7 0 1) ?i)))) = []"
    by (simp add: Let_def del: deliver.simps)
  with pending eight nine show ?thesis by (simp del: deliver.simps)
qed

section \<open>The toggle command\<close>

text \<open>
  C10. If the query for the active tab answers with no tab, the toggle command returns at
  once: the query is the only call it has made (no update, no move, no badge), and the
  browser is as the query left it.
\<close>

theorem togglePinActiveTab_no_tab:
  assumes "tabs_query_active H h = (Inr [], h')"
  shows "togglePinActiveTab H (h, tr) = (Inr (), (h', tr @ [TabsQueryActive]))"
  using assms by (simp add: togglePinActiveTab_def io_defs)

theorem togglePinActiveTab_no_tab_witness:
  "togglePinActiveTab scripted ([GivesTabs []], []) = (Inr (), ([], [TabsQueryActive]))"
  using togglePinActiveTab_no_tab [of scripted "[GivesTabs []]" "[]" "[]"]
  by (simp add: scripted_def)

end
